theory Spec2Isabelle
  imports Complex_Main
begin

section \<open>JavaScript values as the services see them\<close>

text \<open>
  The services are TypeScript modules that run on documents parsed from JSON. A JavaScript
  number is a finite value, \<open>NaN\<close> or one of the two infinities. Finite values are
  rationals here and arithmetic on them is exact: rounding to binary64, overflow to an
  infinity and the sign of zero are not part of this model.
\<close>

datatype jsnum = Fin rat | NaN | PosInf | NegInf

datatype error = Error string | TypeError | SyntaxError

text \<open>\<^verbatim>\<open>Number.isFinite(x)\<close> for a value that is a number.\<close>

fun Number_isFinite :: "jsnum \<Rightarrow> bool" where
  "Number_isFinite (Fin q) = True"
| "Number_isFinite NaN = False"
| "Number_isFinite PosInf = False"
| "Number_isFinite NegInf = False"

fun jsneg :: "jsnum \<Rightarrow> jsnum" where
  "jsneg (Fin q) = Fin (- q)"
| "jsneg NaN = NaN"
| "jsneg PosInf = NegInf"
| "jsneg NegInf = PosInf"

text \<open>The operator \<^verbatim>\<open>+\<close> on two numbers.\<close>

fun jsadd :: "jsnum \<Rightarrow> jsnum \<Rightarrow> jsnum" where
  "jsadd (Fin a) (Fin b) = Fin (a + b)"
| "jsadd NaN y = NaN"
| "jsadd x NaN = NaN"
| "jsadd PosInf NegInf = NaN"
| "jsadd NegInf PosInf = NaN"
| "jsadd PosInf y = PosInf"
| "jsadd x PosInf = PosInf"
| "jsadd NegInf y = NegInf"
| "jsadd x NegInf = NegInf"

definition jssub :: "jsnum \<Rightarrow> jsnum \<Rightarrow> jsnum" where
  "jssub x y = jsadd x (jsneg y)"

text \<open>The operator \<^verbatim>\<open>/\<close> with a finite, non-zero divisor (the services divide by 60 only).\<close>

fun jsdiv_const :: "jsnum \<Rightarrow> rat \<Rightarrow> jsnum" where
  "jsdiv_const (Fin a) c = Fin (a / c)"
| "jsdiv_const NaN c = NaN"
| "jsdiv_const PosInf c = (if 0 < c then PosInf else NegInf)"
| "jsdiv_const NegInf c = (if 0 < c then NegInf else PosInf)"

text \<open>\<^verbatim>\<open>Math.round\<close>: the nearest integer, a tie going up.\<close>

fun Math_round :: "jsnum \<Rightarrow> jsnum" where
  "Math_round (Fin q) = Fin (of_int \<lfloor>q + 1 / 2\<rfloor>)"
| "Math_round x = x"

subsection \<open>Parsed JSON\<close>

text \<open>
  What \<^verbatim>\<open>response.json()\<close> yields. An object is the list of its own properties in
  insertion order (keys distinct); its prototype is \<^verbatim>\<open>Object.prototype\<close>, and none of
  its own properties is callable.
\<close>

datatype json =
    JNull
  | JBool bool
  | JNum rat
  | JStr string
  | JArr "json list"
  | JObj "(string \<times> json) list"

text \<open>Truthiness, as \<^verbatim>\<open>!d\<close> and \<^verbatim>\<open>!!d\<close> test it.\<close>

fun truthy :: "json \<Rightarrow> bool" where
  "truthy JNull = False"
| "truthy (JBool b) = b"
| "truthy (JNum q) = (q \<noteq> 0)"
| "truthy (JStr s) = (s \<noteq> [])"
| "truthy (JArr xs) = True"
| "truthy (JObj kvs) = True"

text \<open>
  Reading a property \<^verbatim>\<open>d.k\<close>: \<open>None\<close> is \<^verbatim>\<open>undefined\<close>. Reading from
  \<^verbatim>\<open>null\<close> throws a TypeError. The keys the services read (\<^verbatim>\<open>date\<close>,
  \<^verbatim>\<open>count\<close>, the call fields) are on no prototype, so only an object's own
  properties can answer.
\<close>

fun getProp :: "json \<Rightarrow> string \<Rightarrow> error + json option" where
  "getProp JNull k = Inl TypeError"
| "getProp (JObj kvs) k = Inr (map_of kvs k)"
| "getProp d k = Inr None"

text \<open>\<^verbatim>\<open>v ?? 0\<close>: the default replaces \<^verbatim>\<open>undefined\<close> and \<^verbatim>\<open>null\<close> only.\<close>

fun nullish_or_zero :: "json option \<Rightarrow> json" where
  "nullish_or_zero None = JNum 0"
| "nullish_or_zero (Some JNull) = JNum 0"
| "nullish_or_zero (Some v) = v"

subsection \<open>Numbers to strings\<close>

definition digitChar :: "nat \<Rightarrow> char" where
  "digitChar n = ''0123456789'' ! n"

text \<open>The decimal digits of a whole number that is not negative.\<close>

function showNat :: "int \<Rightarrow> string" where
  "showNat n =
     (if n < 10 then [digitChar (nat n)] else showNat (n div 10) @ [digitChar (nat (n mod 10))])"
  by pat_completeness auto
termination
  by (relation "measure nat") auto

declare showNat.simps [simp del]

text \<open>
  The digits after the decimal point of a fraction \<open>0 \<le> f < 1\<close>, by long division, at
  most \<open>n\<close> of them.
\<close>

fun fracDigits :: "nat \<Rightarrow> rat \<Rightarrow> string" where
  "fracDigits 0 f = []"
| "fracDigits (Suc n) f =
     (if f = 0 then []
      else digitChar (nat \<lfloor>10 * f\<rfloor>) # fracDigits n (10 * f - of_int \<lfloor>10 * f\<rfloor>))"

text \<open>
  \<^verbatim>\<open>Number.prototype.toString\<close>. A whole number is its decimal digits; a fraction is
  written out in positional notation. JavaScript prints the shortest digits that read back
  as the same binary64 value and switches to exponent notation from \<open>10\<^sup>2\<^sup>1\<close> on and
  below \<open>10\<^sup>-\<^sup>6\<close>; the model agrees with it on whole numbers below \<open>10\<^sup>2\<^sup>1\<close> and on
  short decimal fractions. The only characters it produces are digits, a leading minus
  sign and one decimal point.
\<close>

fun NumberToString :: "jsnum \<Rightarrow> string" where
  "NumberToString NaN = ''NaN''"
| "NumberToString PosInf = ''Infinity''"
| "NumberToString NegInf = ''-Infinity''"
| "NumberToString (Fin q) =
     (let a = \<bar>q\<bar>; w = \<lfloor>a\<rfloor>; f = a - of_int w in
      (if q < 0 then ''-'' else '''') @ showNat w @
      (if f = 0 then '''' else ''.'' @ fracDigits 20 f))"

subsection \<open>Strings to numbers\<close>

definition isDigit :: "char \<Rightarrow> bool" where
  "isDigit c = (48 \<le> (of_char c :: nat) \<and> (of_char c :: nat) \<le> 57)"

definition hexVal :: "char \<Rightarrow> nat option" where
  "hexVal c =
     (let n = (of_char c :: nat) in
      if 48 \<le> n \<and> n \<le> 57 then Some (n - 48)
      else if 97 \<le> n \<and> n \<le> 102 then Some (n - 87)
      else if 65 \<le> n \<and> n \<le> 70 then Some (n - 55)
      else None)"

text \<open>A character is a digit of the base when its value is below the base.\<close>

definition isDigitOf :: "nat \<Rightarrow> char \<Rightarrow> bool" where
  "isDigitOf base c = (case hexVal c of None \<Rightarrow> False | Some v \<Rightarrow> v < base)"

definition digitsVal :: "nat \<Rightarrow> string \<Rightarrow> int" where
  "digitsVal base s =
     foldl (\<lambda>a c. a * int base + (case hexVal c of None \<Rightarrow> 0 | Some v \<Rightarrow> int v)) 0 s"

text \<open>
  The white space \<^verbatim>\<open>Number\<close> trims from both ends of a string: tab, line feed,
  vertical tab, form feed, carriage return and space (the white space outside ASCII is
  not modelled).
\<close>

definition isWhite :: "char \<Rightarrow> bool" where
  "isWhite c = ((of_char c :: nat) \<in> {9, 10, 11, 12, 13, 32})"

definition trim :: "string \<Rightarrow> string" where
  "trim s = rev (dropWhile isWhite (rev (dropWhile isWhite s)))"

text \<open>The exponent part of a decimal literal: nothing, or \<^verbatim>\<open>e\<close> and a signed integer.\<close>

fun parseExponent :: "string \<Rightarrow> int option" where
  "parseExponent [] = Some 0"
| "parseExponent (c # r) =
     (if c = CHR ''e'' \<or> c = CHR ''E'' then
        (let neg = (r \<noteq> [] \<and> hd r = CHR ''-'');
             ds = (if r \<noteq> [] \<and> (hd r = CHR ''-'' \<or> hd r = CHR ''+'') then tl r else r)
         in if ds \<noteq> [] \<and> list_all isDigit ds
            then Some ((if neg then - 1 else 1) * digitsVal 10 ds)
            else None)
      else None)"

definition scale10 :: "rat \<Rightarrow> int \<Rightarrow> rat" where
  "scale10 x e = (if 0 \<le> e then x * 10 ^ nat e else x / 10 ^ nat (- e))"

text \<open>
  \<^verbatim>\<open>StrUnsignedDecimalLiteral\<close>: \<^verbatim>\<open>Infinity\<close>, or digits with an optional fraction
  and an optional exponent, at least one digit before or after the point.
\<close>

definition parseUnsignedDecimal :: "string \<Rightarrow> jsnum" where
  "parseUnsignedDecimal s =
     (if s = ''Infinity'' then PosInf
      else
        let ip = takeWhile isDigit s;
            r1 = dropWhile isDigit s;
            dot = (r1 \<noteq> [] \<and> hd r1 = CHR ''.'');
            fp = (if dot then takeWhile isDigit (tl r1) else []);
            r2 = (if dot then dropWhile isDigit (tl r1) else r1)
        in if ip = [] \<and> fp = [] then NaN
           else (case parseExponent r2 of
                   None \<Rightarrow> NaN
                 | Some e \<Rightarrow> Fin (scale10 (of_int (digitsVal 10 (ip @ fp))) (e - int (length fp)))))"

text \<open>A literal with a radix prefix: the digits after the two prefix characters.\<close>

definition parseRadix :: "nat \<Rightarrow> string \<Rightarrow> jsnum" where
  "parseRadix base ds =
     (if ds \<noteq> [] \<and> list_all (isDigitOf base) ds then Fin (of_int (digitsVal base ds)) else NaN)"

text \<open>
  \<^verbatim>\<open>Number(s)\<close> for a string: the empty or blank string is 0, a string that is no
  numeric literal is \<open>NaN\<close>.
\<close>

definition StringToNumber :: "string \<Rightarrow> jsnum" where
  "StringToNumber s =
     (let t = trim s in
      case t of
        [] \<Rightarrow> Fin 0
      | c # u \<Rightarrow>
          if c = CHR ''+'' then parseUnsignedDecimal u
          else if c = CHR ''-'' then jsneg (parseUnsignedDecimal u)
          else if c = CHR ''0'' \<and> u \<noteq> [] \<and> hd u \<in> {CHR ''x'', CHR ''X''} then parseRadix 16 (tl u)
          else if c = CHR ''0'' \<and> u \<noteq> [] \<and> hd u \<in> {CHR ''o'', CHR ''O''} then parseRadix 8 (tl u)
          else if c = CHR ''0'' \<and> u \<noteq> [] \<and> hd u \<in> {CHR ''b'', CHR ''B''} then parseRadix 2 (tl u)
          else parseUnsignedDecimal t)"

subsection \<open>Coercions of parsed values\<close>

text \<open>
  \<^verbatim>\<open>String(v)\<close>. An array is its elements joined by commas, \<^verbatim>\<open>null\<close> elements
  as the empty string. An object is \<^verbatim>\<open>[object Object]\<close> by the inherited
  \<^verbatim>\<open>toString\<close>; an own property \<^verbatim>\<open>toString\<close> hides the inherited method and
  is not callable, the inherited \<^verbatim>\<open>valueOf\<close> returns the object itself, and the
  conversion throws a TypeError.
\<close>

fun ToStringJ :: "json \<Rightarrow> error + string"
  and joinElems :: "json list \<Rightarrow> error + string" where
  "ToStringJ JNull = Inr ''null''"
| "ToStringJ (JBool b) = Inr (if b then ''true'' else ''false'')"
| "ToStringJ (JNum q) = Inr (NumberToString (Fin q))"
| "ToStringJ (JStr s) = Inr s"
| "ToStringJ (JArr xs) = joinElems xs"
| "ToStringJ (JObj kvs) =
     (if map_of kvs ''toString'' \<noteq> None then Inl TypeError else Inr ''[object Object]'')"
| "joinElems [] = Inr []"
| "joinElems (x # xs) =
     (case (if x = JNull then Inr [] else ToStringJ x) of
        Inl e \<Rightarrow> Inl e
      | Inr s \<Rightarrow>
          (if xs = [] then Inr s
           else (case joinElems xs of Inl e \<Rightarrow> Inl e | Inr r \<Rightarrow> Inr (s @ '','' @ r))))"

text \<open>The argument may be \<^verbatim>\<open>undefined\<close> (\<open>None\<close>).\<close>

fun ToString :: "json option \<Rightarrow> error + string" where
  "ToString None = Inr ''undefined''"
| "ToString (Some v) = ToStringJ v"

text \<open>
  \<^verbatim>\<open>Number(v)\<close>. An array or object is first made a primitive: \<^verbatim>\<open>valueOf\<close>
  gives no primitive, so the string of \<^verbatim>\<open>toString\<close> is parsed.
\<close>

fun ToNumber :: "json option \<Rightarrow> error + jsnum" where
  "ToNumber None = Inr NaN"
| "ToNumber (Some JNull) = Inr (Fin 0)"
| "ToNumber (Some (JBool b)) = Inr (Fin (if b then 1 else 0))"
| "ToNumber (Some (JNum q)) = Inr (Fin q)"
| "ToNumber (Some (JStr s)) = Inr (StringToNumber s)"
| "ToNumber (Some v) = (case ToStringJ v of Inl e \<Rightarrow> Inl e | Inr s \<Rightarrow> Inr (StringToNumber s))"

text \<open>The test \<^verbatim>\<open>/^\d{4}-\d{2}-\d{2}$/.test(s)\<close>.\<close>

fun dayPattern :: "string \<Rightarrow> bool" where
  "dayPattern [y1, y2, y3, y4, h1, m1, m2, h2, d1, d2] =
     (isDigit y1 \<and> isDigit y2 \<and> isDigit y3 \<and> isDigit y4 \<and> h1 = CHR ''-'' \<and>
      isDigit m1 \<and> isDigit m2 \<and> h2 = CHR ''-'' \<and> isDigit d1 \<and> isDigit d2)"
| "dayPattern s = False"

text \<open>\<^verbatim>\<open>xs.map(f)\<close> with a callback that may throw: the first throw ends the call.\<close>

fun mapE :: "('a \<Rightarrow> error + 'b) \<Rightarrow> 'a list \<Rightarrow> error + 'b list" where
  "mapE f [] = Inr []"
| "mapE f (x # xs) =
     (case f x of
        Inl e \<Rightarrow> Inl e
      | Inr y \<Rightarrow> (case mapE f xs of Inl e \<Rightarrow> Inl e | Inr ys \<Rightarrow> Inr (y # ys)))"

text \<open>
  The response \<^verbatim>\<open>fetch\<close> resolved with: the fields the loaders read, and what
  \<^verbatim>\<open>response.json()\<close> resolves with (\<open>None\<close> when the body is no JSON text and the
  call rejects with a SyntaxError).
\<close>

record response =
  ok :: bool
  status :: nat
  statusText :: string
  json_body :: "json option"

section \<open>The call-log adapter (services/callsData.ts)\<close>

record DatedEntry =
  date :: string

record CallSummaryEntryRaw = DatedEntry +
  incoming_count :: jsnum
  outgoing_count :: jsnum
  incoming_seconds :: jsnum
  outgoing_seconds :: jsnum

record CallSummaryEntry = CallSummaryEntryRaw +
  total_count :: jsnum
  total_seconds :: jsnum
  total_minutes :: jsnum

text \<open>\<^verbatim>\<open>Number.isFinite(x) ? x : 0\<close>.\<close>

definition finite_or_zero :: "jsnum \<Rightarrow> jsnum" where
  "finite_or_zero x = (if Number_isFinite x then x else Fin 0)"

text \<open>\<^verbatim>\<open>Number(d.k ?? 0)\<close> for a record \<open>d\<close> that is not \<^verbatim>\<open>null\<close>.\<close>

definition numberField :: "json \<Rightarrow> string \<Rightarrow> error + jsnum" where
  "numberField d k =
     (case getProp d k of Inl e \<Rightarrow> Inl e | Inr v \<Rightarrow> ToNumber (Some (nullish_or_zero v)))"

text \<open>\<^verbatim>\<open>String(d.date)\<close>.\<close>

definition dateField :: "json \<Rightarrow> error + string" where
  "dateField d = (case getProp d ''date'' of Inl e \<Rightarrow> Inl e | Inr v \<Rightarrow> ToString v)"

text \<open>
  \<^verbatim>\<open>normalizeCallEntry(d)\<close>: \<open>Inr None\<close> is the \<^verbatim>\<open>null\<close> it returns for a
  falsy record. The object literal evaluates its fields in order, so the first coercion
  that throws decides the error.
\<close>

definition normalizeCallEntry :: "json \<Rightarrow> error + CallSummaryEntry option" where
  "normalizeCallEntry d =
     (if \<not> truthy d then Inr None
      else
        case dateField d of Inl e \<Rightarrow> Inl e | Inr dt \<Rightarrow>
        case numberField d ''incoming_count'' of Inl e \<Rightarrow> Inl e | Inr ic \<Rightarrow>
        case numberField d ''outgoing_count'' of Inl e \<Rightarrow> Inl e | Inr oc \<Rightarrow>
        case numberField d ''incoming_seconds'' of Inl e \<Rightarrow> Inl e | Inr isec \<Rightarrow>
        case numberField d ''outgoing_seconds'' of Inl e \<Rightarrow> Inl e | Inr osec \<Rightarrow>
          (let tc = jsadd (finite_or_zero ic) (finite_or_zero oc);
               ts = jsadd (finite_or_zero isec) (finite_or_zero osec);
               tm = Math_round (jsdiv_const ts 60)
           in Inr (Some \<lparr>date = dt, incoming_count = ic, outgoing_count = oc,
                          incoming_seconds = isec, outgoing_seconds = osec,
                          total_count = tc, total_seconds = ts, total_minutes = tm\<rparr>)))"

text \<open>The predicate of the \<^verbatim>\<open>filter\<close> in \<^verbatim>\<open>loadCallsSummary\<close>.\<close>

fun keepCall :: "CallSummaryEntry option \<Rightarrow> bool" where
  "keepCall None = False"
| "keepCall (Some e) =
     (Number_isFinite (total_seconds e) \<and> Number_isFinite (total_count e) \<and> dayPattern (date e))"

text \<open>
  \<^verbatim>\<open>loadCallsSummary\<close> from the response on. The entries that pass the filter are
  never \<^verbatim>\<open>null\<close>, which is the type guard of the source.
\<close>

definition loadCallsSummary :: "response \<Rightarrow> error + CallSummaryEntry list" where
  "loadCallsSummary r =
     (if \<not> ok r then
        Inl (Error (''Failed to load Calls summary: '' @ showNat (int (status r)) @ '' '' @ statusText r))
      else
        case json_body r of
          None \<Rightarrow> Inl SyntaxError
        | Some (JArr ds) \<Rightarrow>
            (case mapE normalizeCallEntry ds of
               Inl e \<Rightarrow> Inl e
             | Inr ns \<Rightarrow> Inr (map the (filter keepCall ns)))
        | Some j \<Rightarrow> Inl (Error ''Invalid Calls summary shape: expected an array''))"

section \<open>The photo-count adapter (services/googlePhotosData.ts)\<close>

text \<open>
  The entry \<^verbatim>\<open>{ date, count }\<close>; its \<^verbatim>\<open>count\<close> field is \<open>photos_count\<close> here, the
  name \<open>count\<close> being the field of a genre counter below.
\<close>

record GooglePhotosSummaryEntry = DatedEntry +
  photos_count :: jsnum

text \<open>The predicate of both \<^verbatim>\<open>filter\<close> calls of \<^verbatim>\<open>loadPhotosSummary\<close>.\<close>

definition keepPhoto :: "GooglePhotosSummaryEntry \<Rightarrow> bool" where
  "keepPhoto e = (Number_isFinite (photos_count e) \<and> dayPattern (date e))"

text \<open>
  The callback of the array branch, \<^verbatim>\<open>{ date: String(d.date), count: Number(d.count) }\<close>:
  reading \<^verbatim>\<open>d.date\<close> of a \<^verbatim>\<open>null\<close> element throws.
\<close>

definition photoOfRecord :: "json \<Rightarrow> error + GooglePhotosSummaryEntry" where
  "photoOfRecord d =
     (case dateField d of Inl e \<Rightarrow> Inl e | Inr dt \<Rightarrow>
      case getProp d ''count'' of Inl e \<Rightarrow> Inl e | Inr v \<Rightarrow>
      case ToNumber v of Inl e \<Rightarrow> Inl e | Inr c \<Rightarrow>
        Inr \<lparr>date = dt, photos_count = c\<rparr>)"

text \<open>
  The callback of the object branch, on one pair of \<^verbatim>\<open>Object.entries(json)\<close>. The
  pairs are taken in insertion order; JavaScript lists keys that are array indices first,
  and no such key passes the day pattern, so the entries returned are the same.
\<close>

definition photoOfPair :: "string \<times> json \<Rightarrow> error + GooglePhotosSummaryEntry" where
  "photoOfPair kv =
     (case ToNumber (Some (snd kv)) of Inl e \<Rightarrow> Inl e | Inr c \<Rightarrow>
        Inr \<lparr>date = fst kv, photos_count = c\<rparr>)"

definition loadPhotosSummary :: "response \<Rightarrow> error + GooglePhotosSummaryEntry list" where
  "loadPhotosSummary r =
     (if \<not> ok r then
        Inl (Error (''Failed to load Google Photos summary: '' @ showNat (int (status r)) @ '' '' @
                    statusText r))
      else
        case json_body r of
          None \<Rightarrow> Inl SyntaxError
        | Some (JArr ds) \<Rightarrow>
            (case mapE photoOfRecord ds of Inl e \<Rightarrow> Inl e | Inr es \<Rightarrow> Inr (filter keepPhoto es))
        | Some (JObj kvs) \<Rightarrow>
            (case mapE photoOfPair kvs of Inl e \<Rightarrow> Inl e | Inr es \<Rightarrow> Inr (filter keepPhoto es))
        | Some j \<Rightarrow>
            Inl (Error ''Invalid Google Photos summary shape: expected array or date-keyed object''))"

section \<open>Dates, sets and sorting\<close>

text \<open>
  A \<^verbatim>\<open>Date\<close> object, by its fields in UTC: the year, the month from 0 and the day of the
  month; or Invalid Date.
\<close>

datatype Date = InvalidDate | UTCDate int nat nat

fun getUTCFullYear :: "Date \<Rightarrow> jsnum" where
  "getUTCFullYear InvalidDate = NaN"
| "getUTCFullYear (UTCDate y m d) = Fin (of_int y)"

fun getUTCMonth :: "Date \<Rightarrow> jsnum" where
  "getUTCMonth InvalidDate = NaN"
| "getUTCMonth (UTCDate y m d) = Fin (of_nat m)"

fun getUTCDate :: "Date \<Rightarrow> jsnum" where
  "getUTCDate InvalidDate = NaN"
| "getUTCDate (UTCDate y m d) = Fin (of_nat d)"

definition daysInMonth :: "int \<Rightarrow> int \<Rightarrow> int" where
  "daysInMonth y m =
     (if m = 2 then (if (y mod 4 = 0 \<and> y mod 100 \<noteq> 0) \<or> y mod 400 = 0 then 29 else 28)
      else if m \<in> {4, 6, 9, 11} then 30 else 31)"

text \<open>
  \<^verbatim>\<open>new Date(s)\<close> for the strings the services build, a day key followed by
  \<^verbatim>\<open>T00:00:00Z\<close>, read by the date-time string format of ECMAScript: a month outside
  1 to 12 or a day outside its month is Invalid Date. (What an engine makes of any other
  string, and of a day from 29 to 31 that its month does not have, is left to the engine;
  here they are Invalid Date.)
\<close>

definition Date_fromString :: "string \<Rightarrow> Date" where
  "Date_fromString s =
     (let k = take 10 s in
      if drop 10 s = ''T00:00:00Z'' \<and> dayPattern k then
        (let y = digitsVal 10 (take 4 k);
             m = digitsVal 10 (take 2 (drop 5 k));
             d = digitsVal 10 (drop 8 k)
         in if 1 \<le> m \<and> m \<le> 12 \<and> 1 \<le> d \<and> d \<le> daysInMonth y m
            then UTCDate y (nat (m - 1)) (nat d) else InvalidDate)
      else InvalidDate)"

text \<open>
  The civil date of a day number (days since 1970-01-01) in the proleptic Gregorian
  calendar: year, month from 1, day of the month.
\<close>

definition civil_from_days :: "int \<Rightarrow> int \<times> nat \<times> nat" where
  "civil_from_days z =
     (let z1 = z + 719468;
          era = z1 div 146097;
          doe = z1 mod 146097;
          yoe = (doe - doe div 1460 + doe div 36524 - doe div 146096) div 365;
          doy = doe - (365 * yoe + yoe div 4 - yoe div 100);
          mp = (5 * doy + 2) div 153;
          d = doy - (153 * mp + 2) div 5 + 1;
          m = (if mp < 10 then mp + 3 else mp - 9);
          y = yoe + era * 400 + (if m \<le> 2 then 1 else 0)
      in (y, nat m, nat d))"

text \<open>
  \<^verbatim>\<open>new Date(t)\<close> for a number: the time value is clipped (not finite or beyond
  \<open>8.64 \<times> 10\<^sup>1\<^sup>5\<close> ms is Invalid Date) and truncated to whole milliseconds.
\<close>

definition Date_fromTime :: "jsnum \<Rightarrow> Date" where
  "Date_fromTime t =
     (case t of
        Fin q \<Rightarrow>
          if 8640000000000000 < \<bar>q\<bar> then InvalidDate
          else
            (let ms = (if 0 \<le> q then \<lfloor>q\<rfloor> else - \<lfloor>- q\<rfloor>);
                 ymd = civil_from_days (ms div 86400000)
             in UTCDate (fst ymd) (fst (snd ymd) - 1) (snd (snd ymd)))
      | _ \<Rightarrow> InvalidDate)"

text \<open>The comparisons \<^verbatim>\<open><\<close> and \<^verbatim>\<open>>=\<close> on numbers: false when a side is \<open>NaN\<close>.\<close>

fun jslt :: "jsnum \<Rightarrow> jsnum \<Rightarrow> bool" where
  "jslt NaN y = False"
| "jslt x NaN = False"
| "jslt (Fin a) (Fin b) = (a < b)"
| "jslt PosInf y = False"
| "jslt x PosInf = True"
| "jslt NegInf NegInf = False"
| "jslt NegInf y = True"
| "jslt x NegInf = False"

definition jsge :: "jsnum \<Rightarrow> jsnum \<Rightarrow> bool" where
  "jsge x y = (x \<noteq> NaN \<and> y \<noteq> NaN \<and> \<not> jslt x y)"


text \<open>Truthiness of a number: \<^verbatim>\<open>0\<close> and \<open>NaN\<close> are falsy.\<close>

fun truthyNum :: "jsnum \<Rightarrow> bool" where
  "truthyNum (Fin q) = (q \<noteq> 0)"
| "truthyNum NaN = False"
| "truthyNum x = True"

text \<open>
  A \<^verbatim>\<open>Set\<close> or the keys of a \<^verbatim>\<open>Map\<close>, in insertion order. Keys are compared by
  SameValueZero, under which \<open>NaN\<close> is equal to itself.
\<close>

definition Set_add :: "'a \<Rightarrow> 'a list \<Rightarrow> 'a list" where
  "Set_add x xs = (if x \<in> set xs then xs else xs @ [x])"

text \<open>
  \<^verbatim>\<open>Map.prototype.set\<close> on a map held as the list of its pairs in insertion order: a
  key already present keeps its place, a new key goes last. \<^verbatim>\<open>Map.prototype.get\<close> is
  \<^const>\<open>map_of\<close>.
\<close>

fun Map_set :: "'k \<Rightarrow> 'v \<Rightarrow> ('k \<times> 'v) list \<Rightarrow> ('k \<times> 'v) list" where
  "Map_set k v [] = [(k, v)]"
| "Map_set k v (p # ps) = (if fst p = k then (k, v) # ps else p # Map_set k v ps)"

text \<open>
  \<^verbatim>\<open>Array.prototype.sort(comparefn)\<close>. The sort is stable, and a result of the
  comparator that is \<open>NaN\<close> counts as 0. For a consistent comparator the result is fixed
  by the language; it is computed here by insertion from the right, an element moving
  behind exactly those that the comparator puts strictly before it.
\<close>

fun comparesAfter :: "jsnum \<Rightarrow> bool" where
  "comparesAfter (Fin q) = (0 < q)"
| "comparesAfter PosInf = True"
| "comparesAfter x = False"

fun insertBy :: "('a \<Rightarrow> 'a \<Rightarrow> jsnum) \<Rightarrow> 'a \<Rightarrow> 'a list \<Rightarrow> 'a list" where
  "insertBy cmp x [] = [x]"
| "insertBy cmp x (y # ys) =
     (if comparesAfter (cmp x y) then y # insertBy cmp x ys else x # y # ys)"

definition Array_sort :: "('a \<Rightarrow> 'a \<Rightarrow> jsnum) \<Rightarrow> 'a list \<Rightarrow> 'a list" where
  "Array_sort cmp xs = foldr (insertBy cmp) xs []"

section \<open>Temporal grouping (getYearFromISO and groupYears of every service)\<close>

definition getYearFromISO :: "string \<Rightarrow> jsnum" where
  "getYearFromISO isoDate = getUTCFullYear (Date_fromString (isoDate @ ''T00:00:00Z''))"


section \<open>Category aggregation (services/traktGenreAggregation.ts)\<close>

record GenreCount =
  name :: string
  count :: jsnum

text \<open>
  \<^verbatim>\<open>RuntimeSummaryEntry\<close>. The aggregation reads \<^verbatim>\<open>e.genres ?? []\<close>, so a missing
  list is part of the model (\<open>None\<close>).
\<close>

record RuntimeSummaryEntry = DatedEntry +
  total_runtime :: jsnum
  genres :: "GenreCount list option"
  subgenres :: "GenreCount list option"

text \<open>
  \<^verbatim>\<open>MonthlyGenres\<close>; its list field \<^verbatim>\<open>genres\<close> is \<open>genres_m\<close> here, the name
  \<open>genres\<close> being the field of an entry.
\<close>

record MonthlyGenres =
  year :: jsnum
  month :: jsnum
  genres_m :: "GenreCount list"

text \<open>The month of a date key, from 1: \<^verbatim>\<open>new Date(e.date + 'T00:00:00Z').getUTCMonth() + 1\<close>.\<close>

definition getMonthFromISO :: "string \<Rightarrow> jsnum" where
  "getMonthFromISO isoDate = jsadd (getUTCMonth (Date_fromString (isoDate @ ''T00:00:00Z''))) (Fin 1)"

text \<open>The template literal \<^verbatim>\<open>`${y}-${m}`\<close>.\<close>

definition key :: "jsnum \<Rightarrow> jsnum \<Rightarrow> string" where
  "key y m = NumberToString y @ ''-'' @ NumberToString m"

definition monthKey :: "string \<Rightarrow> string" where
  "monthKey isoDate = key (getYearFromISO isoDate) (getMonthFromISO isoDate)"

text \<open>
  The inner loop body:
  \<^verbatim>\<open>genreMap.set(g.name, (genreMap.get(g.name) ?? 0) + (Number.isFinite(g.count) ? g.count : 0))\<close>.
\<close>

definition addGenre :: "(string \<times> jsnum) list \<Rightarrow> GenreCount \<Rightarrow> (string \<times> jsnum) list" where
  "addGenre genreMap g =
     Map_set (name g)
       (jsadd (case map_of genreMap (name g) of None \<Rightarrow> Fin 0 | Some prev \<Rightarrow> prev)
              (finite_or_zero (count g)))
       genreMap"

text \<open>
  The outer loop body, for the entry's list \<open>gs\<close> (\<^verbatim>\<open>e.genres ?? []\<close> in one function,
  \<^verbatim>\<open>e.subgenres ?? []\<close> in the other). The inner map is created on the first entry
  of its month and updated in place after that, so the month keeps its place among the keys.
\<close>

definition addEntry ::
  "('e RuntimeSummaryEntry_scheme \<Rightarrow> GenreCount list option) \<Rightarrow>
   (string \<times> (string \<times> jsnum) list) list \<Rightarrow> 'e RuntimeSummaryEntry_scheme \<Rightarrow>
   (string \<times> (string \<times> jsnum) list) list" where
  "addEntry field m e =
     (let km = monthKey (date e);
          genreMap = (case map_of m km of None \<Rightarrow> [] | Some gm \<Rightarrow> gm);
          gs = (case field e of None \<Rightarrow> [] | Some l \<Rightarrow> l)
      in Map_set km (foldl addGenre genreMap gs) m)"

definition accumulate ::
  "('e RuntimeSummaryEntry_scheme \<Rightarrow> GenreCount list option) \<Rightarrow>
   'e RuntimeSummaryEntry_scheme list \<Rightarrow> (string \<times> (string \<times> jsnum) list) list" where
  "accumulate field entries = foldl (addEntry field) [] entries"

text \<open>\<^verbatim>\<open>s.split(c)\<close> for a one-character separator.\<close>

fun splitOn :: "char \<Rightarrow> string \<Rightarrow> string list" where
  "splitOn c [] = [[]]"
| "splitOn c (x # xs) =
     (if x = c then [] # splitOn c xs
      else (case splitOn c xs of [] \<Rightarrow> [[x]] | p # ps \<Rightarrow> (x # p) # ps))"

text \<open>
  \<^verbatim>\<open>Number(p)\<close> for an element of a destructured array: a missing element is
  \<^verbatim>\<open>undefined\<close>, and its number is \<open>NaN\<close>.
\<close>

definition numberAt :: "string list \<Rightarrow> nat \<Rightarrow> jsnum" where
  "numberAt ps i = (if i < length ps then StringToNumber (ps ! i) else NaN)"

text \<open>The comparator \<^verbatim>\<open>(a, b) => b.count - a.count\<close>.\<close>

definition byCountDesc :: "GenreCount \<Rightarrow> GenreCount \<Rightarrow> jsnum" where
  "byCountDesc a b = jssub (count b) (count a)"

text \<open>
  \<^verbatim>\<open>Array.from(genreMap.entries()).map(([name, count]) => ({ name, count })).sort(...)\<close>.
\<close>

definition materialize :: "(string \<times> jsnum) list \<Rightarrow> GenreCount list" where
  "materialize genreMap =
     Array_sort byCountDesc (map (\<lambda>p. \<lparr>name = fst p, count = snd p\<rparr>) genreMap)"

text \<open>
  \<^verbatim>\<open>xs.slice(0, Math.max(0, limit))\<close>: \<^verbatim>\<open>Math.max\<close> is \<open>NaN\<close> for a \<open>NaN\<close> limit,
  and \<^verbatim>\<open>slice\<close> reads an end that is \<open>NaN\<close> as 0 and truncates a fraction.
\<close>

fun sliceTo :: "jsnum \<Rightarrow> 'a list \<Rightarrow> 'a list" where
  "sliceTo (Fin q) xs = (if q < 0 then [] else take (nat \<lfloor>q\<rfloor>) xs)"
| "sliceTo PosInf xs = xs"
| "sliceTo NaN xs = []"
| "sliceTo NegInf xs = []"

text \<open>The comparator \<^verbatim>\<open>(a, b) => (a.year - b.year) || (a.month - b.month)\<close>.\<close>

definition byYearMonth :: "MonthlyGenres \<Rightarrow> MonthlyGenres \<Rightarrow> jsnum" where
  "byYearMonth a b =
     (let dy = jssub (year a) (year b) in
      if truthyNum dy then dy else jssub (month a) (month b))"

text \<open>
  The second loop, for one pair of the outer map: the key is split at its hyphens and the
  first two pieces become the year and the month; \<open>cap\<close> is what is done to the sorted list.
\<close>

definition bucketOf ::
  "(GenreCount list \<Rightarrow> GenreCount list) \<Rightarrow> string \<times> (string \<times> jsnum) list \<Rightarrow> MonthlyGenres" where
  "bucketOf cap kg =
     (let ps = splitOn CHR ''-'' (fst kg) in
      \<lparr>year = numberAt ps 0, month = numberAt ps 1, genres_m = cap (materialize (snd kg))\<rparr>)"

definition aggregateGenresByMonth :: "'e RuntimeSummaryEntry_scheme list \<Rightarrow> MonthlyGenres list" where
  "aggregateGenresByMonth entries =
     Array_sort byYearMonth (map (bucketOf (\<lambda>gs. gs)) (accumulate genres entries))"

text \<open>The limit is optional in the source and 5 when it is not given.\<close>

definition aggregateSubgenresByMonth ::
  "'e RuntimeSummaryEntry_scheme list \<Rightarrow> jsnum option \<Rightarrow> MonthlyGenres list" where
  "aggregateSubgenresByMonth entries limit =
     (let l = (case limit of None \<Rightarrow> Fin 5 | Some v \<Rightarrow> v) in
      Array_sort byYearMonth (map (bucketOf (sliceTo l)) (accumulate subgenres entries)))"

subsection \<open>The twelve months of a year (the monthly word-cloud component)\<close>



section \<open>The paginated acquisition loop (the photo frequency counter script)\<close>

text \<open>
  An item of a page, by the two fields the loop reads: \<^verbatim>\<open>timestamp\<close>, a number (an
  item that has none fails the comparison with the cutoff, as \<open>NaN\<close> does), and
  \<^verbatim>\<open>timezoneOffset\<close>, \<open>None\<close> when it is not a number. A page may lack any of its
  fields, and the call may resolve with no page at all.
\<close>

record item =
  timestamp :: jsnum
  timezoneOffset :: "jsnum option"

record page =
  items :: "item option list option"
  nextPageId :: "string option"
  lastItemTimestamp :: "jsnum option"

text \<open>\<^verbatim>\<open>Date.UTC(2020, 0, 1)\<close>.\<close>

definition startMs :: jsnum where
  "startMs = Fin 1577836800000"

text \<open>\<^verbatim>\<open>s.padStart(2, '0')\<close>.\<close>

definition padStart2 :: "string \<Rightarrow> string" where
  "padStart2 s = replicate (2 - length s) CHR ''0'' @ s"

text \<open>The key of a \<^verbatim>\<open>Date\<close>: \<^verbatim>\<open>`${yyyy}-${mm}-${dd}`\<close> from its fields in UTC.\<close>

definition utcDayKey :: "Date \<Rightarrow> string" where
  "utcDayKey local =
     NumberToString (getUTCFullYear local) @ ''-'' @
     padStart2 (NumberToString (jsadd (getUTCMonth local) (Fin 1))) @ ''-'' @
     padStart2 (NumberToString (getUTCDate local))"

text \<open>The time zone offset the loop adds: the item's own when it is a number, else 0.\<close>

definition offsetOf :: "item \<Rightarrow> jsnum" where
  "offsetOf it = (case timezoneOffset it of Some tz \<Rightarrow> tz | None \<Rightarrow> Fin 0)"

definition localDayKey :: "item \<Rightarrow> string" where
  "localDayKey it = utcDayKey (Date_fromTime (jsadd (timestamp it) (offsetOf it)))"

text \<open>The test \<^verbatim>\<open>item?.timestamp >= startMs\<close>; a missing item fails it.\<close>

fun qualifies :: "jsnum \<Rightarrow> item option \<Rightarrow> bool" where
  "qualifies cutoff None = False"
| "qualifies cutoff (Some it) = jsge (timestamp it) cutoff"

text \<open>
  The state of the loop: the map of counts, the cursor, the two counters, and (a ghost of
  the model) the cursors of the requests made so far, oldest first.
\<close>

record loopState =
  counts :: "(string \<times> nat) list"
  cursor :: "string option"
  pageCount :: nat
  totalKept :: nat
  requested :: "string option list"

text \<open>
  The body of the \<^verbatim>\<open>for\<close> loop:
  \<^verbatim>\<open>counts.set(key, (counts.get(key) || 0) + 1); totalKept++\<close> for an item that qualifies.
\<close>

definition countItem :: "jsnum \<Rightarrow> loopState \<Rightarrow> item option \<Rightarrow> loopState" where
  "countItem cutoff st io =
     (case io of
        None \<Rightarrow> st
      | Some it \<Rightarrow>
          if jsge (timestamp it) cutoff then
            st\<lparr>counts := Map_set (localDayKey it)
                            ((case map_of (counts st) (localDayKey it) of None \<Rightarrow> 0 | Some c \<Rightarrow> c) + 1)
                            (counts st),
               totalKept := totalKept st + 1\<rparr>
          else st)"

text \<open>\<^verbatim>\<open>page?.items ?? []\<close>, \<^verbatim>\<open>page?.nextPageId ?? null\<close> and the stop test on the hint.\<close>

definition itemsOf :: "page option \<Rightarrow> item option list" where
  "itemsOf p = (case p of None \<Rightarrow> [] | Some pg \<Rightarrow> (case items pg of None \<Rightarrow> [] | Some l \<Rightarrow> l))"

definition nextOf :: "page option \<Rightarrow> string option" where
  "nextOf p = (case p of None \<Rightarrow> None | Some pg \<Rightarrow> nextPageId pg)"

definition shouldStop :: "jsnum \<Rightarrow> page option \<Rightarrow> bool" where
  "shouldStop cutoff p =
     (case p of
        None \<Rightarrow> False
      | Some pg \<Rightarrow> (case lastItemTimestamp pg of None \<Rightarrow> False | Some lastTs \<Rightarrow> jslt lastTs cutoff))"

text \<open>Truthiness of the cursor, the test of \<^verbatim>\<open>while (nextPageId)\<close>.\<close>

fun truthyCursor :: "string option \<Rightarrow> bool" where
  "truthyCursor None = False"
| "truthyCursor (Some s) = (s \<noteq> [])"

text \<open>
  One pass through the body of the \<^verbatim>\<open>do\<close> loop against the feed: the request with the
  current cursor, the count of the page's items, the new cursor; and whether the loop
  goes round again, which it does unless the hint stops it (\<^verbatim>\<open>break\<close>) or the
  cursor is falsy.
\<close>

definition iteration ::
  "jsnum \<Rightarrow> (string option \<Rightarrow> page option) \<Rightarrow> loopState \<Rightarrow> loopState \<times> bool" where
  "iteration cutoff feed st =
     (let p = feed (cursor st);
          st1 = foldl (countItem cutoff) (st\<lparr>requested := requested st @ [cursor st]\<rparr>) (itemsOf p);
          st2 = st1\<lparr>pageCount := pageCount st1 + 1, cursor := nextOf p\<rparr>
      in (st2, \<not> shouldStop cutoff p \<and> truthyCursor (cursor st2)))"


definition initialState :: loopState where
  "initialState = \<lparr>counts = [], cursor = None, pageCount = 0, totalKept = 0, requested = []\<rparr>"


section \<open>Properties of a record that decide its fate\<close>

text \<open>The five properties of a raw record that \<^verbatim>\<open>normalizeCallEntry\<close> reads.\<close>

definition rawFields :: "string list" where
  "rawFields = [''date'', ''incoming_count'', ''outgoing_count'', ''incoming_seconds'',
                ''outgoing_seconds'']"


text \<open>The value of a finite number (0 for the others).\<close>

fun finVal :: "jsnum \<Rightarrow> rat" where
  "finVal (Fin q) = q"
| "finVal x = 0"

text \<open>The place of the first occurrence of \<open>x\<close> in a list (its length when there is none).\<close>

definition firstIdx :: "'a list \<Rightarrow> 'a \<Rightarrow> nat" where
  "firstIdx xs x = length (takeWhile (\<lambda>y. y \<noteq> x) xs)"

text \<open>
  The counters that the entries of one month bring, in the order in which the accumulation
  meets them: entry by entry, and within an entry in the order of its list.
\<close>

definition monthGenres ::
  "('e RuntimeSummaryEntry_scheme \<Rightarrow> GenreCount list option) \<Rightarrow> string \<Rightarrow>
   'e RuntimeSummaryEntry_scheme list \<Rightarrow> GenreCount list" where
  "monthGenres field k entries =
     concat (map (\<lambda>e. case field e of None \<Rightarrow> [] | Some l \<Rightarrow> l)
                 (filter (\<lambda>e. monthKey (date e) = k) entries))"

text \<open>A bucket with its list cut to the first \<open>n\<close> categories.\<close>

definition firstCategories :: "nat \<Rightarrow> MonthlyGenres \<Rightarrow> MonthlyGenres" where
  "firstCategories n b = b\<lparr>genres_m := take n (genres_m b)\<rparr>"

text \<open>The count that the map holds for a key: \<^verbatim>\<open>counts.get(key) || 0\<close>.\<close>

definition countOf :: "(string \<times> nat) list \<Rightarrow> string \<Rightarrow> nat" where
  "countOf cs k = (case map_of cs k of None \<Rightarrow> 0 | Some c \<Rightarrow> c)"

text \<open>The day keys of the items of a page that pass the cutoff test, in page order.\<close>

definition qualifyingKeys :: "jsnum \<Rightarrow> item option list \<Rightarrow> string list" where
  "qualifyingKeys cutoff ios =
     concat (map (\<lambda>io. case io of
                          None \<Rightarrow> []
                        | Some it \<Rightarrow> if jsge (timestamp it) cutoff then [localDayKey it] else [])
                 ios)"




section \<open>Sample documents\<close>

definition okResponse :: "json \<Rightarrow> response" where
  "okResponse j = \<lparr>ok = True, status = 200, statusText = ''OK'', json_body = Some j\<rparr>"

text \<open>A call record whose incoming count is no number.\<close>

definition callRecordBadCount :: json where
  "callRecordBadCount =
     JObj [(''date'', JStr ''2020-01-01''), (''incoming_count'', JStr ''bad''),
           (''outgoing_count'', JNum 2), (''incoming_seconds'', JNum 0),
           (''outgoing_seconds'', JNum 125)]"

text \<open>A call record that brings totals of its own.\<close>

definition callRecordWithTotals :: json where
  "callRecordWithTotals =
     JObj [(''date'', JStr ''2020-01-02''), (''incoming_count'', JNum 2),
           (''outgoing_count'', JStr ''3''), (''incoming_seconds'', JNum 100),
           (''outgoing_seconds'', JNum 25), (''total_count'', JNum 999),
           (''total_seconds'', JNum 1), (''total_minutes'', JNum 7)]"

text \<open>A call record none of whose four fields is a number.\<close>

definition callRecordNoNumbers :: json where
  "callRecordNoNumbers =
     JObj [(''date'', JStr ''2020-01-03''), (''incoming_count'', JStr ''a''),
           (''outgoing_count'', JStr ''b''), (''incoming_seconds'', JObj []),
           (''outgoing_seconds'', JArr [JNum 1, JNum 2])]"

text \<open>A photo document: one well-formed record and a \<^verbatim>\<open>null\<close>.\<close>

definition photosWithNull :: json where
  "photosWithNull = JArr [JObj [(''date'', JStr ''2021-06-01''), (''count'', JNum 5)], JNull]"

text \<open>The same two elements as call records.\<close>

definition callsWithNull :: json where
  "callsWithNull = JArr [JObj [(''date'', JStr ''2021-06-01''), (''incoming_count'', JNum 5)], JNull]"

text \<open>A date-keyed photo document with one count that is no number.\<close>

definition photosByDate :: json where
  "photosByDate = JObj [(''2021-06-01'', JNum 5), (''2021-06-02'', JStr ''bad'')]"



text \<open>
  Two days of January 2020: Drama twice and once more, Comedy three times. Sub-genres of
  the second day: four names, two of them with the same count.
\<close>

definition traktJanuary :: "RuntimeSummaryEntry list" where
  "traktJanuary =
     [\<lparr>date = ''2020-01-01'', total_runtime = Fin 30,
        genres = Some [\<lparr>name = ''Drama'', count = Fin 2\<rparr>], subgenres = None\<rparr>,
      \<lparr>date = ''2020-01-15'', total_runtime = Fin 45,
        genres = Some [\<lparr>name = ''Drama'', count = Fin 1\<rparr>, \<lparr>name = ''Comedy'', count = Fin 3\<rparr>],
        subgenres = Some [\<lparr>name = ''noir'', count = Fin 1\<rparr>, \<lparr>name = ''heist'', count = Fin 4\<rparr>,
                          \<lparr>name = ''satire'', count = Fin 2\<rparr>, \<lparr>name = ''farce'', count = Fin 2\<rparr>]\<rparr>]"


text \<open>
  A feed of three pages. The first has an item of the evening of 1 January 2020 (UTC) taken
  five and a half hours east, an item of the last millisecond of 2019 taken there too, an
  item without a time zone, and a hole; the second has the hint of a time in 2019 and one
  more item of 2020; the third would follow.
\<close>

definition feedThreePages :: "string option \<Rightarrow> page option" where
  "feedThreePages c =
     (if c = None then
        Some \<lparr>items = Some [Some \<lparr>timestamp = Fin 1577908800000, timezoneOffset = Some (Fin 19800000)\<rparr>,
                            Some \<lparr>timestamp = Fin 1577836799999, timezoneOffset = Some (Fin 19800000)\<rparr>,
                            Some \<lparr>timestamp = Fin 1577908800000, timezoneOffset = None\<rparr>,
                            None],
              nextPageId = Some ''p2'', lastItemTimestamp = Some (Fin 1577908800000)\<rparr>
      else if c = Some ''p2'' then
        Some \<lparr>items = Some [Some \<lparr>timestamp = Fin 1577836800000, timezoneOffset = Some (Fin (- 3600000))\<rparr>,
                            Some \<lparr>timestamp = Fin 1575000000000, timezoneOffset = None\<rparr>],
              nextPageId = Some ''p3'', lastItemTimestamp = Some (Fin 1575000000000)\<rparr>
      else
        Some \<lparr>items = Some [Some \<lparr>timestamp = Fin 1577908800000, timezoneOffset = None\<rparr>],
              nextPageId = None, lastItemTimestamp = None\<rparr>)"


section \<open>Properties of the call-log adapter\<close>

lemma mapE_Inr_iff: "mapE f xs = Inr ys \<longleftrightarrow> map f xs = map Inr ys"
proof (induction xs arbitrary: ys)
  case Nil
  then show ?case by auto
next
  case (Cons x xs)
  show ?case
  proof (cases "f x")
    case (Inl e)
    then show ?thesis by (cases ys) auto
  next
    case (Inr y)
    then show ?thesis using Cons.IH
      by (cases ys; cases "mapE f xs") auto
  qed
qed

lemma mapE_Inl_iff: "(\<exists>e. mapE f xs = Inl e) \<longleftrightarrow> (\<exists>x\<in>set xs. \<exists>e. f x = Inl e)"
proof (induction xs)
  case Nil
  then show ?case by simp
next
  case (Cons x xs)
  then show ?case
    by (cases "f x"; cases "mapE f xs") auto
qed

lemma normalizeCallEntry_falsy: "\<not> truthy d \<Longrightarrow> normalizeCallEntry d = Inr None"
  by (simp add: normalizeCallEntry_def)

lemma normalizeCallEntry_Some:
  assumes "normalizeCallEntry d = Inr (Some e)"
  shows "truthy d"
    and "dateField d = Inr (date e)"
    and "numberField d ''incoming_count'' = Inr (incoming_count e)"
    and "numberField d ''outgoing_count'' = Inr (outgoing_count e)"
    and "numberField d ''incoming_seconds'' = Inr (incoming_seconds e)"
    and "numberField d ''outgoing_seconds'' = Inr (outgoing_seconds e)"
    and "total_count e = jsadd (finite_or_zero (incoming_count e)) (finite_or_zero (outgoing_count e))"
    and "total_seconds e = jsadd (finite_or_zero (incoming_seconds e)) (finite_or_zero (outgoing_seconds e))"
    and "total_minutes e = Math_round (jsdiv_const (total_seconds e) 60)"
  using assms
  by (auto simp: normalizeCallEntry_def Let_def split: if_splits sum.splits)

lemma normalizeCallEntry_truthy:
  assumes "truthy d"
    and "dateField d = Inr dt"
    and "numberField d ''incoming_count'' = Inr ic"
    and "numberField d ''outgoing_count'' = Inr oc"
    and "numberField d ''incoming_seconds'' = Inr isec"
    and "numberField d ''outgoing_seconds'' = Inr osec"
  shows "\<exists>e. normalizeCallEntry d = Inr (Some e) \<and> date e = dt \<and> incoming_count e = ic \<and>
             outgoing_count e = oc \<and> incoming_seconds e = isec \<and> outgoing_seconds e = osec"
  using assms by (simp add: normalizeCallEntry_def Let_def)

lemma finite_or_zero_finite: "Number_isFinite (finite_or_zero x)"
  by (simp add: finite_or_zero_def)

lemma finite_or_zero_id: "Number_isFinite x \<Longrightarrow> finite_or_zero x = x"
  by (simp add: finite_or_zero_def)

lemma jsadd_finite: "Number_isFinite x \<Longrightarrow> Number_isFinite y \<Longrightarrow> Number_isFinite (jsadd x y)"
  by (cases x; cases y) auto

lemma round_div_finite: "Number_isFinite x \<Longrightarrow> Number_isFinite (Math_round (jsdiv_const x c))"
  by (cases x) auto

lemma normalizeCallEntry_totals_finite:
  assumes "normalizeCallEntry d = Inr (Some e)"
  shows "Number_isFinite (total_count e) \<and> Number_isFinite (total_seconds e) \<and>
         Number_isFinite (total_minutes e)"
  using normalizeCallEntry_Some(7,8,9)[OF assms]
  by (simp add: jsadd_finite finite_or_zero_finite round_div_finite)

lemma loadCallsSummary_Inr:
  assumes "loadCallsSummary r = Inr es"
  shows "\<exists>ds ns. ok r \<and> json_body r = Some (JArr ds) \<and> map normalizeCallEntry ds = map Inr ns \<and>
                 es = map the (filter keepCall ns)"
  using assms
  by (auto simp: loadCallsSummary_def mapE_Inr_iff split: if_splits option.splits json.splits sum.splits)

lemma loadCallsSummary_member:
  assumes "loadCallsSummary r = Inr es" and "e \<in> set es"
  shows "\<exists>ds d. json_body r = Some (JArr ds) \<and> d \<in> set ds \<and> normalizeCallEntry d = Inr (Some e) \<and>
               dayPattern (date e)"
proof -
  from loadCallsSummary_Inr[OF assms(1)] obtain ds ns where
    b: "json_body r = Some (JArr ds)" and m: "map normalizeCallEntry ds = map Inr ns"
    and es: "es = map the (filter keepCall ns)" by blast
  from assms(2) es obtain n where n: "n \<in> set ns" "keepCall n" "e = the n" by auto
  from n(2) obtain e' where e': "n = Some e'" by (cases n) auto
  with n(3) have ee: "n = Some e" by simp
  with n(2) have dp: "dayPattern (date e)" by simp
  from n(1) have "Inr n \<in> set (map Inr ns)" by simp
  with m have "Inr n \<in> set (map normalizeCallEntry ds)" by simp
  then obtain d where d: "d \<in> set ds" "normalizeCallEntry d = Inr n" by auto
  from b d ee dp show ?thesis by blast
qed

lemma normalizeCallEntry_cong:
  assumes "truthy d' = truthy d" and "\<forall>k\<in>set rawFields. getProp d' k = getProp d k"
  shows "normalizeCallEntry d' = normalizeCallEntry d"
proof -
  have a: "dateField d' = dateField d"
    "numberField d' ''incoming_count'' = numberField d ''incoming_count''"
    "numberField d' ''outgoing_count'' = numberField d ''outgoing_count''"
    "numberField d' ''incoming_seconds'' = numberField d ''incoming_seconds''"
    "numberField d' ''outgoing_seconds'' = numberField d ''outgoing_seconds''"
    using assms(2) by (simp_all add: dateField_def numberField_def rawFields_def)
  show ?thesis unfolding normalizeCallEntry_def a assms(1) ..
qed

text \<open>
  C5. For every entry that \<^verbatim>\<open>loadCallsSummary\<close> returns and whose four raw fields
  are finite: \<open>total_count\<close> is the sum of the two counts, \<open>total_seconds\<close> the sum
  of the two durations, and \<open>total_minutes\<close> is \<open>total_seconds / 60\<close> rounded to the
  nearest integer. The entry comes from a record of the document, and every truthy record with
  the same \<^verbatim>\<open>date\<close> and the same four raw properties gives the same entry, whatever
  else it holds: totals present in the raw input are never read.
\<close>

theorem calls_derived_fields:
  assumes "loadCallsSummary r = Inr es" and "e \<in> set es"
    and "Number_isFinite (incoming_count e)" and "Number_isFinite (outgoing_count e)"
    and "Number_isFinite (incoming_seconds e)" and "Number_isFinite (outgoing_seconds e)"
  shows "total_count e = jsadd (incoming_count e) (outgoing_count e) \<and>
         total_seconds e = jsadd (incoming_seconds e) (outgoing_seconds e) \<and>
         total_minutes e = Math_round (jsdiv_const (total_seconds e) 60) \<and>
         (\<exists>d. normalizeCallEntry d = Inr (Some e) \<and>
              (\<forall>d'. truthy d' \<and> (\<forall>k\<in>set rawFields. getProp d' k = getProp d k) \<longrightarrow>
                    normalizeCallEntry d' = Inr (Some e)))"
proof -
  from loadCallsSummary_member[OF assms(1,2)] obtain d where
    d: "normalizeCallEntry d = Inr (Some e)" by blast
  note s = normalizeCallEntry_Some[OF d]
  have tc: "total_count e = jsadd (incoming_count e) (outgoing_count e)"
    using s(7) assms(3,4) by (simp add: finite_or_zero_id)
  have ts: "total_seconds e = jsadd (incoming_seconds e) (outgoing_seconds e)"
    using s(8) assms(5,6) by (simp add: finite_or_zero_id)
  have indep: "\<forall>d'. truthy d' \<and> (\<forall>k\<in>set rawFields. getProp d' k = getProp d k) \<longrightarrow>
                    normalizeCallEntry d' = Inr (Some e)"
    using normalizeCallEntry_cong[of _ d] s(1) d by auto
  from tc ts s(9) d indep show ?thesis by blast
qed

text \<open>
  A record that brings \<^verbatim>\<open>total_count: 999\<close> of its own: the entry has the sums of
  its components.
\<close>

theorem calls_derived_fields_witness:
  "loadCallsSummary (okResponse (JArr [callRecordWithTotals])) =
     Inr [\<lparr>date = ''2020-01-02'', incoming_count = Fin 2, outgoing_count = Fin 3,
            incoming_seconds = Fin 100, outgoing_seconds = Fin 25, total_count = Fin 5,
            total_seconds = Fin 125, total_minutes = Fin 2\<rparr>] \<and>
   jsadd (Fin 2) (Fin 3) = Fin 5 \<and> jsadd (Fin 100) (Fin 25) = Fin 125 \<and>
   Math_round (jsdiv_const (Fin 125) 60) = Fin 2"
proof -
  let ?e = "\<lparr>date = ''2020-01-02'', incoming_count = Fin 2, outgoing_count = Fin 3,
            incoming_seconds = Fin 100, outgoing_seconds = Fin 25, total_count = Fin 5,
            total_seconds = Fin 125, total_minutes = Fin 2\<rparr>"
  have h: "loadCallsSummary (okResponse (JArr [callRecordWithTotals])) = Inr [?e]"
    by code_simp
  have "total_count ?e = jsadd (incoming_count ?e) (outgoing_count ?e) \<and>
        total_seconds ?e = jsadd (incoming_seconds ?e) (outgoing_seconds ?e) \<and>
        total_minutes ?e = Math_round (jsdiv_const (total_seconds ?e) 60)"
    using calls_derived_fields[OF h, of ?e] by simp
  with h show ?thesis by simp
qed

text \<open>
  C10. Every entry that \<^verbatim>\<open>loadCallsSummary\<close> returns has finite \<open>total_count\<close>,
  \<open>total_seconds\<close> and \<open>total_minutes\<close>: the totals are the sums of the components with
  each component that is not finite counted as 0. The raw fields of a returned entry need
  not be finite: there is a response whose entry has \<open>NaN\<close> in all four.
\<close>

theorem calls_totals_finite:
  assumes "loadCallsSummary r = Inr es" and "e \<in> set es"
  shows "Number_isFinite (total_count e) \<and> Number_isFinite (total_seconds e) \<and>
         Number_isFinite (total_minutes e) \<and>
         total_count e = jsadd (finite_or_zero (incoming_count e)) (finite_or_zero (outgoing_count e)) \<and>
         total_seconds e =
           jsadd (finite_or_zero (incoming_seconds e)) (finite_or_zero (outgoing_seconds e)) \<and>
         (\<exists>r' e'. loadCallsSummary r' = Inr [e'] \<and> incoming_count e' = NaN \<and>
                  outgoing_count e' = NaN \<and> incoming_seconds e' = NaN \<and> outgoing_seconds e' = NaN)"
proof -
  from loadCallsSummary_member[OF assms] obtain d where
    d: "normalizeCallEntry d = Inr (Some e)" by blast
  have ex: "loadCallsSummary (okResponse (JArr [callRecordNoNumbers])) =
      Inr [\<lparr>date = ''2020-01-03'', incoming_count = NaN, outgoing_count = NaN,
             incoming_seconds = NaN, outgoing_seconds = NaN, total_count = Fin 0,
             total_seconds = Fin 0, total_minutes = Fin 0\<rparr>]"
    by code_simp
  have "\<exists>r' e'. loadCallsSummary r' = Inr [e'] \<and> incoming_count e' = NaN \<and>
                  outgoing_count e' = NaN \<and> incoming_seconds e' = NaN \<and> outgoing_seconds e' = NaN"
    by (rule exI, rule exI, rule conjI, rule ex) simp
  with normalizeCallEntry_totals_finite[OF d] normalizeCallEntry_Some(7,8)[OF d]
  show ?thesis by blast
qed

text \<open>
  The record whose incoming count is the string \<^verbatim>\<open>bad\<close>: the entry is returned with
  \<open>NaN\<close> as its incoming count and with finite totals.
\<close>

theorem calls_totals_finite_witness:
  "loadCallsSummary (okResponse (JArr [callRecordBadCount])) =
     Inr [\<lparr>date = ''2020-01-01'', incoming_count = NaN, outgoing_count = Fin 2,
            incoming_seconds = Fin 0, outgoing_seconds = Fin 125, total_count = Fin 2,
            total_seconds = Fin 125, total_minutes = Fin 2\<rparr>] \<and>
   Number_isFinite (Fin 2) \<and> Number_isFinite (Fin 125) \<and> \<not> Number_isFinite NaN"
proof -
  let ?e = "\<lparr>date = ''2020-01-01'', incoming_count = NaN, outgoing_count = Fin 2,
            incoming_seconds = Fin 0, outgoing_seconds = Fin 125, total_count = Fin 2,
            total_seconds = Fin 125, total_minutes = Fin 2\<rparr>"
  have h: "loadCallsSummary (okResponse (JArr [callRecordBadCount])) = Inr [?e]"
    by code_simp
  have "Number_isFinite (total_count ?e) \<and> Number_isFinite (total_seconds ?e) \<and>
        Number_isFinite (total_minutes ?e)"
    using calls_totals_finite[OF h, of ?e] by simp
  with h show ?thesis by simp
qed







section \<open>Properties of the photo-count adapter\<close>


text \<open>
  When \<^verbatim>\<open>loadPhotosSummary\<close> raises: the response is not ok (the message carries the
  status), the body is no JSON, the document is neither an array nor an object (the
  message names the shape), or the callback throws on a record, which it does on every
  \<^verbatim>\<open>null\<close> element of an array.
\<close>

lemma loadPhotosSummary_raises:
  "(\<exists>e. loadPhotosSummary r = Inl e) \<longleftrightarrow>
     \<not> ok r \<or> json_body r = None \<or>
     (\<exists>ds. json_body r = Some (JArr ds) \<and> (\<exists>d\<in>set ds. \<exists>e. photoOfRecord d = Inl e)) \<or>
     (\<exists>kvs. json_body r = Some (JObj kvs) \<and> (\<exists>kv\<in>set kvs. \<exists>e. photoOfPair kv = Inl e)) \<or>
     (\<exists>j. json_body r = Some j \<and> (\<forall>ds. j \<noteq> JArr ds) \<and> (\<forall>kvs. j \<noteq> JObj kvs))"
proof (cases "ok r")
  case False
  then show ?thesis by (simp add: loadPhotosSummary_def)
next
  case True
  show ?thesis
  proof (cases "json_body r")
    case None
    with True show ?thesis by (simp add: loadPhotosSummary_def)
  next
    case (Some j)
    show ?thesis
    proof (cases j)
      case (JArr ds)
      with True Some mapE_Inl_iff[of photoOfRecord ds] show ?thesis
        by (cases "mapE photoOfRecord ds") (auto simp: loadPhotosSummary_def)
    next
      case (JObj kvs)
      with True Some mapE_Inl_iff[of photoOfPair kvs] show ?thesis
        by (cases "mapE photoOfPair kvs") (auto simp: loadPhotosSummary_def)
    qed (use True Some in \<open>auto simp: loadPhotosSummary_def\<close>)
  qed
qed

lemma photoOfRecord_null: "photoOfRecord JNull = Inl TypeError"
  by (simp add: photoOfRecord_def dateField_def)

text \<open>The two messages differ whatever the status is.\<close>

lemma photos_messages_differ:
  "Error (''Failed to load Google Photos summary: '' @ showNat st @ '' '' @ txt) \<noteq>
   Error ''Invalid Google Photos summary shape: expected array or date-keyed object''"
  by simp

text \<open>
  A record with a date that fails the pattern or a count that is not finite raises
  nothing and is left out, as long as it is an object whose two properties convert.
\<close>

lemma loadPhotosSummary_drops:
  assumes "loadPhotosSummary r = Inr es"
  shows "\<forall>e\<in>set es. Number_isFinite (photos_count e) \<and> dayPattern (date e)"
  using assms
  by (auto simp: loadPhotosSummary_def keepPhoto_def split: if_splits option.splits json.splits sum.splits)

text \<open>
  C9, where the code departs from it. The response is ok and the document is an array, so
  no error is due; the array holds one well-formed record and a \<^verbatim>\<open>null\<close>, and
  \<^verbatim>\<open>loadPhotosSummary\<close> throws a TypeError on reading \<^verbatim>\<open>d.date\<close> of the
  \<^verbatim>\<open>null\<close>. \<^verbatim>\<open>loadCallsSummary\<close> on the same two elements returns the entry of
  the first: \<^verbatim>\<open>normalizeCallEntry\<close> answers a falsy record with \<^verbatim>\<open>null\<close>, and
  the filter drops it.
\<close>

theorem photos_null_record_throws:
  "loadPhotosSummary (okResponse photosWithNull) = Inl TypeError \<and>
   loadCallsSummary (okResponse callsWithNull) =
     Inr [\<lparr>date = ''2021-06-01'', incoming_count = Fin 5, outgoing_count = Fin 0,
            incoming_seconds = Fin 0, outgoing_seconds = Fin 0, total_count = Fin 5,
            total_seconds = Fin 0, total_minutes = Fin 0\<rparr>]"
  by code_simp

text \<open>The scenario of the date-keyed document: the key with the bad count is dropped.\<close>

lemma photos_by_date_scenario:
  "loadPhotosSummary (okResponse photosByDate) = Inr [\<lparr>date = ''2021-06-01'', photos_count = Fin 5\<rparr>]"
  by code_simp

section \<open>Sets, maps and sorting\<close>

lemma set_insertBy: "set (insertBy cmp x ys) = insert x (set ys)"
  by (induction ys) auto



lemma Array_sort_Cons: "Array_sort cmp (x # xs) = insertBy cmp x (Array_sort cmp xs)"
  by (simp add: Array_sort_def)

lemma Array_sort_Nil: "Array_sort cmp [] = []"
  by (simp add: Array_sort_def)

lemma set_Array_sort: "set (Array_sort cmp xs) = set xs"
  by (induction xs) (simp_all add: Array_sort_Nil Array_sort_Cons set_insertBy)



text \<open>
  Insertion keeps a list sorted by a key \<open>f\<close> that the comparator agrees with; among equal
  keys it keeps an order \<open>P\<close> in which the new element is before all the others.
\<close>

lemma insertBy_sorted:
  fixes f :: "'a \<Rightarrow> rat"
  assumes "\<forall>y\<in>set ys. comparesAfter (cmp x y) \<longleftrightarrow> f y < f x"
    and "sorted_wrt (\<lambda>a b. f a < f b \<or> (f a = f b \<and> P a b)) ys"
    and "\<forall>y\<in>set ys. P x y"
  shows "sorted_wrt (\<lambda>a b. f a < f b \<or> (f a = f b \<and> P a b)) (insertBy cmp x ys)"
  using assms
proof (induction ys)
  case Nil
  then show ?case by simp
next
  case (Cons y ys)
  show ?case
  proof (cases "f y < f x")
    case True
    with Cons.prems(1) have ins: "insertBy cmp x (y # ys) = y # insertBy cmp x ys" by simp
    have "sorted_wrt (\<lambda>a b. f a < f b \<or> (f a = f b \<and> P a b)) (insertBy cmp x ys)"
      using Cons.IH Cons.prems by simp
    moreover have "\<forall>z\<in>set (insertBy cmp x ys). f y < f z \<or> (f y = f z \<and> P y z)"
      using True Cons.prems(2) by (auto simp: set_insertBy)
    ultimately show ?thesis using ins by simp
  next
    case False
    with Cons.prems(1) have ins: "insertBy cmp x (y # ys) = x # y # ys" by simp
    have le: "\<forall>z\<in>set (y # ys). f y \<le> f z"
      using Cons.prems(2) by auto
    have "\<forall>z\<in>set (y # ys). f x < f z \<or> (f x = f z \<and> P x z)"
    proof
      fix z assume z: "z \<in> set (y # ys)"
      with le False have "f x \<le> f z" by fastforce
      with Cons.prems(3) z show "f x < f z \<or> (f x = f z \<and> P x z)" by fastforce
    qed
    with Cons.prems(2) ins show ?thesis by simp
  qed
qed

lemma Array_sort_sorted:
  fixes f :: "'a \<Rightarrow> rat"
  assumes "\<forall>x\<in>set xs. \<forall>y\<in>set xs. comparesAfter (cmp x y) \<longleftrightarrow> f y < f x"
    and "sorted_wrt P xs"
  shows "sorted_wrt (\<lambda>a b. f a < f b \<or> (f a = f b \<and> P a b)) (Array_sort cmp xs)"
  using assms
proof (induction xs)
  case Nil
  then show ?case by (simp add: Array_sort_Nil)
next
  case (Cons x xs)
  have a: "sorted_wrt (\<lambda>a b. f a < f b \<or> (f a = f b \<and> P a b)) (Array_sort cmp xs)"
    using Cons by simp
  have b: "\<forall>y\<in>set (Array_sort cmp xs). comparesAfter (cmp x y) \<longleftrightarrow> f y < f x"
    using Cons.prems(1) by (simp add: set_Array_sort)
  have c: "\<forall>y\<in>set (Array_sort cmp xs). P x y"
    using Cons.prems(2) by (simp add: set_Array_sort)
  show ?case
    unfolding Array_sort_Cons by (rule insertBy_sorted[where f = f and P = P and cmp = cmp, OF b a c])
qed


lemma set_Set_add: "set (Set_add x xs) = insert x (set xs)"
  by (auto simp: Set_add_def)

lemma distinct_Set_add: "distinct xs \<Longrightarrow> distinct (Set_add x xs)"
  by (simp add: Set_add_def)

lemma set_foldl_Set_add: "set (foldl (\<lambda>s e. Set_add (g e) s) s0 es) = set s0 \<union> g ` set es"
  by (induction es arbitrary: s0) (auto simp: set_Set_add)

lemma distinct_foldl_Set_add:
  "distinct s0 \<Longrightarrow> distinct (foldl (\<lambda>s e. Set_add (g e) s) s0 es)"
  by (induction es arbitrary: s0) (auto simp: distinct_Set_add)

section \<open>Properties of the temporal grouping\<close>


lemma Number_isFinite_iff: "Number_isFinite x \<longleftrightarrow> x = Fin (finVal x)"
  by (cases x) auto




section \<open>Properties of the category aggregation\<close>

lemma keys_Map_set: "map fst (Map_set k v m) = Set_add k (map fst m)"
  by (induction m) (auto simp: Set_add_def)

lemma map_of_Map_set: "map_of (Map_set k v m) = (map_of m)(k \<mapsto> v)"
proof (induction m)
  case Nil
  then show ?case by simp
next
  case (Cons p m)
  then show ?case by (cases p) (auto simp: fun_upd_twist)
qed

lemma distinct_keys_Map_set: "distinct (map fst m) \<Longrightarrow> distinct (map fst (Map_set k v m))"
  by (simp add: keys_Map_set distinct_Set_add)

lemma values_Map_set: "snd ` set (Map_set k v m) \<subseteq> insert v (snd ` set m)"
  by (induction m) auto

lemma firstIdx_append_mem: "a \<in> set xs \<Longrightarrow> firstIdx (xs @ ys) a = firstIdx xs a"
  by (simp add: firstIdx_def takeWhile_append1)

lemma firstIdx_less: "a \<in> set xs \<Longrightarrow> firstIdx xs a < length xs"
  unfolding firstIdx_def by (induction xs) auto

lemma firstIdx_append_new: "a \<notin> set xs \<Longrightarrow> firstIdx (xs @ [a]) a = length xs"
  unfolding firstIdx_def by (induction xs) auto

text \<open>The keys of a map filled in one pass are in the order of their first occurrence.\<close>

lemma foldl_Set_add_snoc:
  "foldl (\<lambda>ks n. Set_add n ks) ks0 (ns @ [n]) = Set_add n (foldl (\<lambda>ks n. Set_add n ks) ks0 ns)"
  by simp

lemma insertion_order_firstIdx:
  "sorted_wrt (\<lambda>a b. firstIdx ns a < firstIdx ns b) (foldl (\<lambda>ks n. Set_add n ks) [] ns)"
proof (induction ns rule: rev_induct)
  case Nil
  then show ?case by simp
next
  case (snoc n ns)
  let ?ks = "foldl (\<lambda>ks n. Set_add n ks) [] ns"
  have s: "set ?ks = set ns"
    using set_foldl_Set_add[of "\<lambda>n. n" "[]" ns] by simp
  have old: "sorted_wrt (\<lambda>a b. firstIdx (ns @ [n]) a < firstIdx (ns @ [n]) b) ?ks"
    using snoc.IH
    by (rule sorted_wrt_mono_rel[rotated]) (simp add: s firstIdx_append_mem)
  show ?case
  proof (cases "n \<in> set ns")
    case True
    with old s show ?thesis by (simp add: Set_add_def)
  next
    case False
    have "\<forall>a\<in>set ?ks. firstIdx (ns @ [n]) a < firstIdx (ns @ [n]) n"
      using False s by (simp add: firstIdx_append_mem firstIdx_less firstIdx_append_new)
    with old False s show ?thesis by (simp add: Set_add_def sorted_wrt_append)
  qed
qed

lemma keys_addGenre: "map fst (addGenre gm g) = Set_add (name g) (map fst gm)"
  by (simp add: addGenre_def keys_Map_set)

lemma keys_foldl_addGenre:
  "map fst (foldl addGenre gm gs) = foldl (\<lambda>ks n. Set_add n ks) (map fst gm) (map name gs)"
  by (induction gs arbitrary: gm) (simp_all add: keys_addGenre)

lemma finite_addGenre:
  assumes "\<forall>v\<in>snd ` set gm. Number_isFinite v"
  shows "\<forall>v\<in>snd ` set (addGenre gm g). Number_isFinite v"
proof
  fix v assume v: "v \<in> snd ` set (addGenre gm g)"
  let ?prev = "case map_of gm (name g) of None \<Rightarrow> Fin 0 | Some prev \<Rightarrow> prev"
  have prev: "Number_isFinite ?prev"
  proof (cases "map_of gm (name g)")
    case None
    then show ?thesis by simp
  next
    case (Some p)
    then have "(name g, p) \<in> set gm" by (rule map_of_SomeD)
    then have "p \<in> snd ` set gm" by force
    with assms have "Number_isFinite p" by blast
    with Some show ?thesis by simp
  qed
  have new: "Number_isFinite (jsadd ?prev (finite_or_zero (count g)))"
    using prev by (simp add: jsadd_finite finite_or_zero_finite)
  from v values_Map_set[of "name g" "jsadd ?prev (finite_or_zero (count g))" gm]
  have "v = jsadd ?prev (finite_or_zero (count g)) \<or> v \<in> snd ` set gm"
    unfolding addGenre_def by blast
  with new assms show "Number_isFinite v" by blast
qed

lemma finite_foldl_addGenre:
  "\<forall>v\<in>snd ` set gm. Number_isFinite v \<Longrightarrow> \<forall>v\<in>snd ` set (foldl addGenre gm gs). Number_isFinite v"
proof (induction gs arbitrary: gm)
  case Nil
  then show ?case by simp
next
  case (Cons g gs)
  from finite_addGenre[OF Cons.prems] have "\<forall>v\<in>snd ` set (addGenre gm g). Number_isFinite v" .
  from Cons.IH[OF this] show ?case by simp
qed

text \<open>
  The outer map after the first loop: a month has a key exactly when an entry falls in
  it, and its inner map is the fold of \<open>addGenre\<close> over the counters of its entries.
\<close>

lemma monthGenres_no_entry:
  "k \<notin> (\<lambda>e. monthKey (date e)) ` set es \<Longrightarrow> monthGenres field k es = []"
  by (induction es) (auto simp: monthGenres_def)

lemma map_of_foldl_addEntry:
  "map_of (foldl (addEntry field) m0 es) k =
     (if k \<in> (\<lambda>e. monthKey (date e)) ` set es
      then Some (foldl addGenre (case map_of m0 k of None \<Rightarrow> [] | Some gm \<Rightarrow> gm)
                   (monthGenres field k es))
      else map_of m0 k)"
proof (induction es arbitrary: m0)
  case Nil
  then show ?case by simp
next
  case (Cons e es)
  let ?km = "monthKey (date e)"
  let ?gs = "case field e of None \<Rightarrow> [] | Some l \<Rightarrow> l"
  let ?init = "\<lambda>m. case map_of m k of None \<Rightarrow> [] | Some gm \<Rightarrow> gm"
  let ?m1 = "addEntry field m0 e"
  have m1: "map_of ?m1 = (map_of m0)(?km \<mapsto> foldl addGenre (case map_of m0 ?km of None \<Rightarrow> [] | Some gm \<Rightarrow> gm) ?gs)"
    by (simp add: addEntry_def Let_def map_of_Map_set)
  have step: "foldl (addEntry field) m0 (e # es) = foldl (addEntry field) ?m1 es" by simp
  show ?case
  proof (cases "k = ?km")
    case True
    have init1: "?init ?m1 = foldl addGenre (?init m0) ?gs"
      using m1 True by simp
    have mg: "monthGenres field k (e # es) = ?gs @ monthGenres field k es"
      using True by (simp add: monthGenres_def)
    have "foldl addGenre (?init ?m1) (monthGenres field k es) =
          foldl addGenre (?init m0) (monthGenres field k (e # es))"
      by (simp add: init1 mg)
    moreover have "map_of ?m1 k = Some (foldl addGenre (?init m0) ?gs)"
      using m1 True by simp
    ultimately show ?thesis
      unfolding step Cons.IH[of ?m1] using True mg monthGenres_no_entry[of k es field] by auto
  next
    case False
    have init1: "?init ?m1 = ?init m0" using m1 False by simp
    have mg: "monthGenres field k (e # es) = monthGenres field k es"
      using False by (simp add: monthGenres_def)
    have mem: "k \<in> (\<lambda>e. monthKey (date e)) ` set (e # es) \<longleftrightarrow> k \<in> (\<lambda>e. monthKey (date e)) ` set es"
      using False by auto
    have "map_of ?m1 k = map_of m0 k" using m1 False by simp
    then show ?thesis
      unfolding step Cons.IH[of ?m1] init1 mg mem by simp
  qed
qed

lemma distinct_keys_foldl_addEntry:
  "distinct (map fst m0) \<Longrightarrow> distinct (map fst (foldl (addEntry field) m0 es))"
proof (induction es arbitrary: m0)
  case Nil
  then show ?case by simp
next
  case (Cons e es)
  have "distinct (map fst (addEntry field m0 e))"
    using Cons.prems by (simp add: addEntry_def Let_def distinct_keys_Map_set)
  from Cons.IH[OF this] show ?case by simp
qed

lemma accumulate_member:
  assumes "(k, gm) \<in> set (accumulate field es)"
  shows "k \<in> (\<lambda>e. monthKey (date e)) ` set es \<and> gm = foldl addGenre [] (monthGenres field k es)"
proof -
  have "distinct (map fst (accumulate field es))"
    unfolding accumulate_def by (rule distinct_keys_foldl_addEntry) simp
  with assms have "map_of (accumulate field es) k = Some gm" by simp
  then show ?thesis
    unfolding accumulate_def map_of_foldl_addEntry by (simp split: if_splits)
qed

text \<open>
  The sorted list of one inner map: by count descending, and among equal counts in the
  order in which the names were first met.
\<close>

lemma comparesAfter_byCountDesc:
  assumes "Number_isFinite (count a)" and "Number_isFinite (count b)"
  shows "comparesAfter (byCountDesc a b) \<longleftrightarrow> - finVal (count b) < - finVal (count a)"
proof -
  from assms obtain p q where "count a = Fin p" "count b = Fin q"
    by (metis Number_isFinite_iff)
  then show ?thesis by (simp add: byCountDesc_def jssub_def)
qed

lemma materialize_sorted:
  assumes gm: "gm = foldl addGenre [] gs"
  defines "ns \<equiv> map name gs"
  shows "sorted_wrt (\<lambda>a b. - finVal (count a) < - finVal (count b) \<or>
                          (- finVal (count a) = - finVal (count b) \<and>
                           firstIdx ns (name a) < firstIdx ns (name b))) (materialize gm)"
    and "\<forall>g\<in>set (materialize gm). Number_isFinite (count g)"
    and "map name (map (\<lambda>p. \<lparr>name = fst p, count = snd p\<rparr>) gm) = foldl (\<lambda>ks n. Set_add n ks) [] ns"
proof -
  let ?ms = "map (\<lambda>p. \<lparr>name = fst p, count = snd p\<rparr>) gm"
  have keys: "map fst gm = foldl (\<lambda>ks n. Set_add n ks) [] ns"
    unfolding gm ns_def using keys_foldl_addGenre[of "[]" gs] by simp
  show names: "map name ?ms = foldl (\<lambda>ks n. Set_add n ks) [] ns"
    using keys by (simp add: comp_def)
  have fin: "\<forall>v\<in>snd ` set gm. Number_isFinite v"
    unfolding gm by (rule finite_foldl_addGenre) simp
  then have finms: "\<forall>g\<in>set ?ms. Number_isFinite (count g)" by auto
  then show "\<forall>g\<in>set (materialize gm). Number_isFinite (count g)"
    by (simp add: materialize_def set_Array_sort)
  have "sorted_wrt (\<lambda>a b. firstIdx ns a < firstIdx ns b) (map name ?ms)"
    unfolding names by (rule insertion_order_firstIdx)
  then have P: "sorted_wrt (\<lambda>a b. firstIdx ns (name a) < firstIdx ns (name b)) ?ms"
    by (simp only: sorted_wrt_map)
  have cmp: "\<forall>x\<in>set ?ms. \<forall>y\<in>set ?ms.
               comparesAfter (byCountDesc x y) \<longleftrightarrow> - finVal (count y) < - finVal (count x)"
    using finms comparesAfter_byCountDesc by blast
  show "sorted_wrt (\<lambda>a b. - finVal (count a) < - finVal (count b) \<or>
                          (- finVal (count a) = - finVal (count b) \<and>
                           firstIdx ns (name a) < firstIdx ns (name b))) (materialize gm)"
    unfolding materialize_def
    by (rule Array_sort_sorted[where f = "\<lambda>g. - finVal (count g)"
          and P = "\<lambda>a b. firstIdx ns (name a) < firstIdx ns (name b)" and cmp = byCountDesc, OF cmp P])
qed

lemma distinct_map_insertBy:
  "distinct (map h (insertBy cmp x ys)) \<longleftrightarrow> h x \<notin> h ` set ys \<and> distinct (map h ys)"
  by (induction ys) (auto simp: set_insertBy)

lemma distinct_map_Array_sort: "distinct (map h (Array_sort cmp xs)) \<longleftrightarrow> distinct (map h xs)"
  by (induction xs)
     (simp_all add: Array_sort_Nil Array_sort_Cons distinct_map_insertBy set_Array_sort)

lemma jsge_finite:
  assumes "Number_isFinite x" and "Number_isFinite y"
  shows "jsge x y \<longleftrightarrow> finVal y \<le> finVal x"
proof -
  from assms obtain p q where "x = Fin p" "y = Fin q" by (metis Number_isFinite_iff)
  then show ?thesis by (auto simp: jsge_def)
qed

lemma aggregate_member:
  assumes "b \<in> set (Array_sort byYearMonth (map (bucketOf cap) (accumulate field es)))"
  shows "\<exists>k\<in>(\<lambda>e. monthKey (date e)) ` set es.
           b = bucketOf cap (k, foldl addGenre [] (monthGenres field k es))"
proof -
  from assms obtain kg where kg: "kg \<in> set (accumulate field es)" and b: "b = bucketOf cap kg"
    by (auto simp: set_Array_sort)
  obtain k gm where p: "kg = (k, gm)" by (cases kg)
  from accumulate_member[of k gm field es] kg p b show ?thesis by auto
qed

lemma genres_m_bucketOf: "genres_m (bucketOf cap kg) = cap (materialize (snd kg))"
  by (simp add: bucketOf_def Let_def)

text \<open>The full sorted list of a month: the facts about it that the claims use.\<close>

lemma month_list_sorted:
  fixes gs :: "GenreCount list"
  defines "l \<equiv> materialize (foldl addGenre [] gs)"
  shows "sorted_wrt (\<lambda>a c. jsge (count a) (count c)) l"
    and "sorted_wrt (\<lambda>a c. count a = count c \<longrightarrow>
            firstIdx (map name gs) (name a) < firstIdx (map name gs) (name c)) l"
    and "set (map name l) = set (map name gs)"
    and "distinct (map name l)"
proof -
  note m = materialize_sorted[OF refl, of gs]
  have fin: "\<forall>g\<in>set l. Number_isFinite (count g)"
    unfolding l_def by (rule m(2))
  have srt: "sorted_wrt (\<lambda>a b. - finVal (count a) < - finVal (count b) \<or>
                          (- finVal (count a) = - finVal (count b) \<and>
                           firstIdx (map name gs) (name a) < firstIdx (map name gs) (name b))) l"
    unfolding l_def by (rule m(1))
  show "sorted_wrt (\<lambda>a c. jsge (count a) (count c)) l"
    using srt
  proof (rule sorted_wrt_mono_rel[rotated])
    fix a c assume "a \<in> set l" "c \<in> set l"
      and "- finVal (count a) < - finVal (count c) \<or>
           (- finVal (count a) = - finVal (count c) \<and>
            firstIdx (map name gs) (name a) < firstIdx (map name gs) (name c))"
    with fin show "jsge (count a) (count c)" by (auto simp: jsge_finite)
  qed
  show "sorted_wrt (\<lambda>a c. count a = count c \<longrightarrow>
            firstIdx (map name gs) (name a) < firstIdx (map name gs) (name c)) l"
    using srt by (rule sorted_wrt_mono_rel[rotated]) auto
  let ?ms = "map (\<lambda>p. \<lparr>name = fst p, count = snd p\<rparr>) (foldl addGenre [] gs)"
  have names: "map name ?ms = foldl (\<lambda>ks n. Set_add n ks) [] (map name gs)"
    by (rule m(3))
  have "set (map name l) = set (map name ?ms)"
    unfolding l_def materialize_def by (simp only: set_map set_Array_sort)
  also have "\<dots> = set (map name gs)"
    unfolding names using set_foldl_Set_add[of "\<lambda>n. n" "[]" "map name gs"] by simp
  finally show "set (map name l) = set (map name gs)" .
  have "distinct (map name ?ms)"
    unfolding names by (rule distinct_foldl_Set_add) simp
  then show "distinct (map name l)"
    unfolding l_def materialize_def by (simp only: distinct_map_Array_sort)
qed

text \<open>
  C2. In every bucket that \<^verbatim>\<open>aggregateGenresByMonth\<close> returns, the bucket being that of
  a month key \<open>k\<close> of some entry: for any two categories, the one that comes first has a
  count \<^verbatim>\<open>>=\<close> that of the other; and if their counts are equal, the name of the first
  appeared before the name of the other among the genre counters of the month's entries,
  taken in input order. The names of the bucket are those of the month, each once.
\<close>

theorem genres_sorted_stable:
  "\<forall>b\<in>set (aggregateGenresByMonth es). \<exists>k\<in>(\<lambda>e. monthKey (date e)) ` set es.
      b = bucketOf (\<lambda>gs. gs) (k, foldl addGenre [] (monthGenres genres k es)) \<and>
      sorted_wrt (\<lambda>a c. jsge (count a) (count c)) (genres_m b) \<and>
      sorted_wrt (\<lambda>a c. count a = count c \<longrightarrow>
                        firstIdx (map name (monthGenres genres k es)) (name a) <
                        firstIdx (map name (monthGenres genres k es)) (name c)) (genres_m b) \<and>
      set (map name (genres_m b)) = set (map name (monthGenres genres k es)) \<and>
      distinct (map name (genres_m b))"
proof
  fix b assume "b \<in> set (aggregateGenresByMonth es)"
  then obtain k where k: "k \<in> (\<lambda>e. monthKey (date e)) ` set es"
    and b: "b = bucketOf (\<lambda>gs. gs) (k, foldl addGenre [] (monthGenres genres k es))"
    unfolding aggregateGenresByMonth_def using aggregate_member by blast
  have g: "genres_m b = materialize (foldl addGenre [] (monthGenres genres k es))"
    unfolding b by (simp add: genres_m_bucketOf)
  from month_list_sorted[of "monthGenres genres k es"] k b
  show "\<exists>k\<in>(\<lambda>e. monthKey (date e)) ` set es.
      b = bucketOf (\<lambda>gs. gs) (k, foldl addGenre [] (monthGenres genres k es)) \<and>
      sorted_wrt (\<lambda>a c. jsge (count a) (count c)) (genres_m b) \<and>
      sorted_wrt (\<lambda>a c. count a = count c \<longrightarrow>
                        firstIdx (map name (monthGenres genres k es)) (name a) <
                        firstIdx (map name (monthGenres genres k es)) (name c)) (genres_m b) \<and>
      set (map name (genres_m b)) = set (map name (monthGenres genres k es)) \<and>
      distinct (map name (genres_m b))"
    unfolding g by blast
qed

text \<open>
  The scenario of January 2020: Drama and Comedy both end at 3, and Drama, met first,
  stays first.
\<close>

theorem genres_sorted_stable_witness:
  "aggregateGenresByMonth traktJanuary =
     [\<lparr>year = Fin 2020, month = Fin 1,
        genres_m = [\<lparr>name = ''Drama'', count = Fin 3\<rparr>, \<lparr>name = ''Comedy'', count = Fin 3\<rparr>]\<rparr>] \<and>
   sorted_wrt (\<lambda>a c. jsge (count a) (count c))
     [\<lparr>name = ''Drama'', count = Fin 3\<rparr>, \<lparr>name = ''Comedy'', count = Fin 3\<rparr>] \<and>
   firstIdx [''Drama'', ''Drama'', ''Comedy''] ''Drama'' < firstIdx [''Drama'', ''Drama'', ''Comedy''] ''Comedy''"
proof -
  let ?b = "\<lparr>year = Fin 2020, month = Fin 1,
        genres_m = [\<lparr>name = ''Drama'', count = Fin 3\<rparr>, \<lparr>name = ''Comedy'', count = Fin 3\<rparr>]\<rparr>"
  have v: "aggregateGenresByMonth traktJanuary = [?b]" by code_simp
  then have "?b \<in> set (aggregateGenresByMonth traktJanuary)" by simp
  with genres_sorted_stable[of traktJanuary]
  have "sorted_wrt (\<lambda>a c. jsge (count a) (count c)) (genres_m ?b)" by blast
  then have s: "sorted_wrt (\<lambda>a c. jsge (count a) (count c))
     [\<lparr>name = ''Drama'', count = Fin 3\<rparr>, \<lparr>name = ''Comedy'', count = Fin 3\<rparr>]" by simp
  have f: "firstIdx [''Drama'', ''Drama'', ''Comedy''] ''Drama'' <
           firstIdx [''Drama'', ''Drama'', ''Comedy''] ''Comedy''" by code_simp
  from v s f show ?thesis by blast
qed

lemma insertBy_map:
  assumes "\<forall>a b. cmp (h a) (h b) = cmp' a b"
  shows "insertBy cmp (h x) (map h ys) = map h (insertBy cmp' x ys)"
  by (induction ys) (simp_all add: assms)

lemma Array_sort_map:
  assumes "\<forall>a b. cmp (h a) (h b) = cmp' a b"
  shows "Array_sort cmp (map h xs) = map h (Array_sort cmp' xs)"
proof (induction xs)
  case Nil
  then show ?case by (simp add: Array_sort_Nil)
next
  case (Cons x xs)
  have "Array_sort cmp (map h (x # xs)) = insertBy cmp (h x) (Array_sort cmp (map h xs))"
    by (simp add: Array_sort_Cons)
  also have "\<dots> = insertBy cmp (h x) (map h (Array_sort cmp' xs))"
    by (simp only: Cons.IH)
  also have "\<dots> = map h (insertBy cmp' x (Array_sort cmp' xs))"
    by (rule insertBy_map[where cmp = cmp and cmp' = cmp' and h = h, OF assms])
  finally show ?case by (simp add: Array_sort_Cons)
qed

lemma byYearMonth_firstCategories:
  "\<forall>a b. byYearMonth (firstCategories n a) (firstCategories n b) = byYearMonth a b"
  by (simp add: byYearMonth_def firstCategories_def Let_def)

lemma sliceTo_of_nat: "sliceTo (Fin (of_nat K)) xs = take K xs"
  by simp

lemma bucketOf_sliceTo:
  "bucketOf (sliceTo (Fin (of_nat K))) kg = firstCategories K (bucketOf (sliceTo PosInf) kg)"
proof -
  have "sliceTo (Fin (of_nat K)) (materialize (snd kg)) = take K (materialize (snd kg))"
    by (rule sliceTo_of_nat)
  moreover have "sliceTo PosInf (materialize (snd kg)) = materialize (snd kg)" by simp
  ultimately show ?thesis
    by (simp add: bucketOf_def firstCategories_def Let_def)
qed

lemma bucketOf_PosInf: "bucketOf (sliceTo PosInf) = bucketOf (\<lambda>gs. gs)"
proof
  fix kg :: "string \<times> (string \<times> jsnum) list"
  have "sliceTo PosInf (materialize (snd kg)) = materialize (snd kg)" by simp
  then show "bucketOf (sliceTo PosInf) kg = bucketOf (\<lambda>gs. gs) kg"
    by (simp add: bucketOf_def Let_def)
qed

lemma sorted_wrt_take_drop:
  assumes "sorted_wrt R xs"
  shows "\<forall>x\<in>set (take K xs). \<forall>y\<in>set (drop K xs). R x y"
proof -
  have "sorted_wrt R (take K xs @ drop K xs)" using assms by simp
  then show ?thesis unfolding sorted_wrt_append by blast
qed

lemma subgenres_capped:
  "aggregateSubgenresByMonth es (Some (Fin (of_nat K))) =
   map (firstCategories K) (aggregateSubgenresByMonth es (Some PosInf))"
proof -
  let ?acc = "accumulate subgenres es"
  have m: "map (bucketOf (sliceTo (Fin (of_nat K)))) ?acc =
           map (firstCategories K) (map (bucketOf (sliceTo PosInf)) ?acc)"
    by (simp add: bucketOf_sliceTo)
  have "Array_sort byYearMonth (map (bucketOf (sliceTo (Fin (of_nat K)))) ?acc) =
        Array_sort byYearMonth (map (firstCategories K) (map (bucketOf (sliceTo PosInf)) ?acc))"
    by (simp only: m)
  also have "\<dots> = map (firstCategories K) (Array_sort byYearMonth (map (bucketOf (sliceTo PosInf)) ?acc))"
    by (rule Array_sort_map[where cmp = byYearMonth and cmp' = byYearMonth
          and h = "firstCategories K", OF byYearMonth_firstCategories])
  finally show ?thesis
    by (simp only: aggregateSubgenresByMonth_def Let_def option.case)
qed

text \<open>
  C7. For a limit \<open>K\<close> that is a natural number, \<^verbatim>\<open>aggregateSubgenresByMonth\<close> returns
  the buckets of the uncapped aggregation (the limit \<^verbatim>\<open>Infinity\<close>), in the same order,
  each with its list cut to the first \<open>K\<close> categories. An uncapped list is the full sorted
  list of its month, by count descending, so the categories kept have counts \<^verbatim>\<open>>=\<close>
  those of all the categories left out; a capped list has at most \<open>K\<close> categories, and
  with the limit 0 every list is empty. The function is total: no limit raises an error.
\<close>

theorem subgenres_top_k:
  "aggregateSubgenresByMonth es (Some (Fin (of_nat K))) =
     map (firstCategories K) (aggregateSubgenresByMonth es (Some PosInf)) \<and>
   (\<forall>b\<in>set (aggregateSubgenresByMonth es (Some (Fin (of_nat K)))). length (genres_m b) \<le> K) \<and>
   (\<forall>b\<in>set (aggregateSubgenresByMonth es (Some PosInf)).
      (\<exists>k\<in>(\<lambda>e. monthKey (date e)) ` set es.
         b = bucketOf (\<lambda>gs. gs) (k, foldl addGenre [] (monthGenres subgenres k es))) \<and>
      sorted_wrt (\<lambda>a c. jsge (count a) (count c)) (genres_m b) \<and>
      (\<forall>x\<in>set (take K (genres_m b)). \<forall>y\<in>set (drop K (genres_m b)). jsge (count x) (count y))) \<and>
   (\<forall>b\<in>set (aggregateSubgenresByMonth es (Some (Fin 0))). genres_m b = [])"
proof -
  have cap: "aggregateSubgenresByMonth es (Some (Fin (of_nat K))) =
     map (firstCategories K) (aggregateSubgenresByMonth es (Some PosInf))"
    by (rule subgenres_capped)
  have len: "\<forall>b\<in>set (aggregateSubgenresByMonth es (Some (Fin (of_nat K)))). length (genres_m b) \<le> K"
    unfolding cap by (auto simp: firstCategories_def)
  have zero: "\<forall>b\<in>set (aggregateSubgenresByMonth es (Some (Fin 0))). genres_m b = []"
    using subgenres_capped[of es 0] by (auto simp: firstCategories_def)
  have full: "\<forall>b\<in>set (aggregateSubgenresByMonth es (Some PosInf)).
      (\<exists>k\<in>(\<lambda>e. monthKey (date e)) ` set es.
         b = bucketOf (\<lambda>gs. gs) (k, foldl addGenre [] (monthGenres subgenres k es))) \<and>
      sorted_wrt (\<lambda>a c. jsge (count a) (count c)) (genres_m b) \<and>
      (\<forall>x\<in>set (take K (genres_m b)). \<forall>y\<in>set (drop K (genres_m b)). jsge (count x) (count y))"
  proof
    fix b assume "b \<in> set (aggregateSubgenresByMonth es (Some PosInf))"
    then have "b \<in> set (Array_sort byYearMonth (map (bucketOf (\<lambda>gs. gs)) (accumulate subgenres es)))"
      by (simp add: aggregateSubgenresByMonth_def bucketOf_PosInf)
    from aggregate_member[OF this] obtain k where k: "k \<in> (\<lambda>e. monthKey (date e)) ` set es"
      and b: "b = bucketOf (\<lambda>gs. gs) (k, foldl addGenre [] (monthGenres subgenres k es))" by blast
    have g: "genres_m b = materialize (foldl addGenre [] (monthGenres subgenres k es))"
      unfolding b by (simp add: genres_m_bucketOf)
    have s: "sorted_wrt (\<lambda>a c. jsge (count a) (count c)) (genres_m b)"
      unfolding g by (rule month_list_sorted(1))
    from k b s sorted_wrt_take_drop[OF s, of K]
    show "(\<exists>k\<in>(\<lambda>e. monthKey (date e)) ` set es.
         b = bucketOf (\<lambda>gs. gs) (k, foldl addGenre [] (monthGenres subgenres k es))) \<and>
      sorted_wrt (\<lambda>a c. jsge (count a) (count c)) (genres_m b) \<and>
      (\<forall>x\<in>set (take K (genres_m b)). \<forall>y\<in>set (drop K (genres_m b)). jsge (count x) (count y))"
      by blast
  qed
  from cap len full zero show ?thesis by blast
qed

text \<open>
  January 2020 again: of the four sub-genres, the limit 2 keeps the two with the highest
  counts, and the limit 0 keeps none.
\<close>

theorem subgenres_top_k_witness:
  "aggregateSubgenresByMonth traktJanuary (Some PosInf) =
     [\<lparr>year = Fin 2020, month = Fin 1,
        genres_m = [\<lparr>name = ''heist'', count = Fin 4\<rparr>, \<lparr>name = ''satire'', count = Fin 2\<rparr>,
                    \<lparr>name = ''farce'', count = Fin 2\<rparr>, \<lparr>name = ''noir'', count = Fin 1\<rparr>]\<rparr>] \<and>
   aggregateSubgenresByMonth traktJanuary (Some (Fin (of_nat 2))) =
     [\<lparr>year = Fin 2020, month = Fin 1,
        genres_m = [\<lparr>name = ''heist'', count = Fin 4\<rparr>, \<lparr>name = ''satire'', count = Fin 2\<rparr>]\<rparr>] \<and>
   aggregateSubgenresByMonth traktJanuary (Some (Fin 0)) =
     [\<lparr>year = Fin 2020, month = Fin 1, genres_m = []\<rparr>]"
proof -
  have full: "aggregateSubgenresByMonth traktJanuary (Some PosInf) =
     [\<lparr>year = Fin 2020, month = Fin 1,
        genres_m = [\<lparr>name = ''heist'', count = Fin 4\<rparr>, \<lparr>name = ''satire'', count = Fin 2\<rparr>,
                    \<lparr>name = ''farce'', count = Fin 2\<rparr>, \<lparr>name = ''noir'', count = Fin 1\<rparr>]\<rparr>]"
    by code_simp
  have zero: "aggregateSubgenresByMonth traktJanuary (Some (Fin 0)) =
     [\<lparr>year = Fin 2020, month = Fin 1, genres_m = []\<rparr>]"
    by code_simp
  from subgenres_top_k[of traktJanuary 2]
  have "aggregateSubgenresByMonth traktJanuary (Some (Fin (of_nat 2))) =
     map (firstCategories 2) (aggregateSubgenresByMonth traktJanuary (Some PosInf))" by blast
  then have two: "aggregateSubgenresByMonth traktJanuary (Some (Fin (of_nat 2))) =
     [\<lparr>year = Fin 2020, month = Fin 1,
        genres_m = [\<lparr>name = ''heist'', count = Fin 4\<rparr>, \<lparr>name = ''satire'', count = Fin 2\<rparr>]\<rparr>]"
    unfolding full by (simp add: firstCategories_def)
  from full two zero show ?thesis by blast
qed









section \<open>Properties of the acquisition loop\<close>



lemma countOf_Map_set: "countOf (Map_set k v cs) k' = (if k' = k then v else countOf cs k')"
  by (simp add: countOf_def map_of_Map_set)

lemma countItem_counts:
  "countOf (counts (countItem cutoff st io)) k =
     countOf (counts st) k + count_list (qualifyingKeys cutoff [io]) k"
  "totalKept (countItem cutoff st io) = totalKept st + length (qualifyingKeys cutoff [io])"
proof -
  show "countOf (counts (countItem cutoff st io)) k =
     countOf (counts st) k + count_list (qualifyingKeys cutoff [io]) k"
  proof (cases io)
    case None
    then show ?thesis by (simp add: countItem_def qualifyingKeys_def)
  next
    case (Some it)
    show ?thesis
    proof (cases "jsge (timestamp it) cutoff")
      case True
      have "counts (countItem cutoff st io) =
            Map_set (localDayKey it) (countOf (counts st) (localDayKey it) + 1) (counts st)"
        using Some True by (simp add: countItem_def countOf_def)
      then show ?thesis
        using Some True by (simp add: countOf_Map_set qualifyingKeys_def)
    next
      case False
      with Some show ?thesis by (simp add: countItem_def qualifyingKeys_def)
    qed
  qed
  show "totalKept (countItem cutoff st io) = totalKept st + length (qualifyingKeys cutoff [io])"
    by (cases io) (simp_all add: countItem_def qualifyingKeys_def)
qed

lemma qualifyingKeys_Cons:
  "qualifyingKeys cutoff (io # ios) = qualifyingKeys cutoff [io] @ qualifyingKeys cutoff ios"
  by (simp add: qualifyingKeys_def)

lemma qualifyingKeys_append:
  "qualifyingKeys cutoff (xs @ ys) = qualifyingKeys cutoff xs @ qualifyingKeys cutoff ys"
  by (simp add: qualifyingKeys_def)

lemma foldl_countItem_counts:
  "countOf (counts (foldl (countItem cutoff) st ios)) k =
     countOf (counts st) k + count_list (qualifyingKeys cutoff ios) k"
proof (induction ios arbitrary: st)
  case Nil
  then show ?case by (simp add: qualifyingKeys_def)
next
  case (Cons io ios)
  have "countOf (counts (foldl (countItem cutoff) st (io # ios))) k =
        countOf (counts (countItem cutoff st io)) k + count_list (qualifyingKeys cutoff ios) k"
    using Cons.IH[of "countItem cutoff st io"] by simp
  also have "\<dots> = countOf (counts st) k + count_list (qualifyingKeys cutoff [io]) k +
                    count_list (qualifyingKeys cutoff ios) k"
    by (simp only: countItem_counts(1))
  finally show ?case
    by (simp add: qualifyingKeys_Cons[of cutoff io ios])
qed

lemma foldl_countItem_totalKept:
  "totalKept (foldl (countItem cutoff) st ios) = totalKept st + length (qualifyingKeys cutoff ios)"
proof (induction ios arbitrary: st)
  case Nil
  then show ?case by (simp add: qualifyingKeys_def)
next
  case (Cons io ios)
  have "totalKept (foldl (countItem cutoff) st (io # ios)) =
        totalKept (countItem cutoff st io) + length (qualifyingKeys cutoff ios)"
    using Cons.IH[of "countItem cutoff st io"] by simp
  then show ?case
    by (simp add: countItem_counts(2) qualifyingKeys_Cons[of cutoff io ios])
qed

text \<open>
  C6. One pass of the loop counts the items of the page it fetched: for every day key,
  the count after the pass is the count before it plus the number of items of the page
  that qualify (timestamp \<^verbatim>\<open>>=\<close> the cutoff) and have that key, and the total kept
  grows by the number of qualifying items. The key of an item is the UTC year, month and
  day of its timestamp plus its own time zone offset, the offset being 0 when the item
  has none; an item whose timestamp is below the cutoff leaves the state as it was.
\<close>

theorem page_items_counted:
  "countOf (counts (fst (iteration cutoff feed st))) k =
     countOf (counts st) k + count_list (qualifyingKeys cutoff (itemsOf (feed (cursor st)))) k \<and>
   totalKept (fst (iteration cutoff feed st)) =
     totalKept st + length (qualifyingKeys cutoff (itemsOf (feed (cursor st)))) \<and>
   qualifyingKeys cutoff [Some it] = (if jsge (timestamp it) cutoff then [localDayKey it] else []) \<and>
   localDayKey it =
     utcDayKey (Date_fromTime (jsadd (timestamp it)
        (case timezoneOffset it of Some tz \<Rightarrow> tz | None \<Rightarrow> Fin 0))) \<and>
   (jslt (timestamp it) cutoff \<longrightarrow> countItem cutoff st (Some it) = st) \<and>
   (jsge (timestamp it) cutoff \<longrightarrow>
      countOf (counts (countItem cutoff st (Some it))) (localDayKey it) =
        countOf (counts st) (localDayKey it) + 1)"
proof -
  let ?st0 = "st\<lparr>requested := requested st @ [cursor st]\<rparr>"
  let ?ios = "itemsOf (feed (cursor st))"
  have c: "counts (fst (iteration cutoff feed st)) = counts (foldl (countItem cutoff) ?st0 ?ios)"
    and t: "totalKept (fst (iteration cutoff feed st)) = totalKept (foldl (countItem cutoff) ?st0 ?ios)"
    by (simp_all add: iteration_def Let_def)
  have a: "countOf (counts (fst (iteration cutoff feed st))) k =
     countOf (counts st) k + count_list (qualifyingKeys cutoff ?ios) k"
    unfolding c foldl_countItem_counts by simp
  have b: "totalKept (fst (iteration cutoff feed st)) = totalKept st + length (qualifyingKeys cutoff ?ios)"
    unfolding t foldl_countItem_totalKept by simp
  have q: "qualifyingKeys cutoff [Some it] = (if jsge (timestamp it) cutoff then [localDayKey it] else [])"
    by (simp add: qualifyingKeys_def)
  have l: "localDayKey it = utcDayKey (Date_fromTime (jsadd (timestamp it)
        (case timezoneOffset it of Some tz \<Rightarrow> tz | None \<Rightarrow> Fin 0)))"
    by (simp add: localDayKey_def offsetOf_def)
  have n: "jslt (timestamp it) cutoff \<longrightarrow> countItem cutoff st (Some it) = st"
    by (simp add: countItem_def jsge_def)
  have p: "jsge (timestamp it) cutoff \<longrightarrow>
      countOf (counts (countItem cutoff st (Some it))) (localDayKey it) =
        countOf (counts st) (localDayKey it) + 1"
    using countItem_counts(1)[of cutoff st "Some it" "localDayKey it"] q by simp
  from a b q l n p show ?thesis by blast
qed

text \<open>
  The first page of the sample feed: the evening item with its offset falls on 2 January,
  the item of the last millisecond of 2019 is not counted although its local day is in
  2020, and the item without an offset falls on its UTC day.
\<close>

theorem page_items_counted_witness:
  "counts (fst (iteration startMs feedThreePages initialState)) =
     [(''2020-01-02'', 1), (''2020-01-01'', 1)] \<and>
   qualifyingKeys startMs (itemsOf (feedThreePages (cursor initialState))) =
     [''2020-01-02'', ''2020-01-01''] \<and>
   countOf (counts (fst (iteration startMs feedThreePages initialState))) ''2020-01-02'' =
     countOf (counts initialState) ''2020-01-02'' +
     count_list (qualifyingKeys startMs (itemsOf (feedThreePages (cursor initialState)))) ''2020-01-02'' \<and>
   jslt (Fin 1577836799999) startMs \<and>
   countItem startMs initialState
     (Some \<lparr>timestamp = Fin 1577836799999, timezoneOffset = Some (Fin 19800000)\<rparr>) = initialState"
proof -
  let ?it = "\<lparr>timestamp = Fin 1577836799999, timezoneOffset = Some (Fin 19800000)\<rparr>"
  have c: "counts (fst (iteration startMs feedThreePages initialState)) =
     [(''2020-01-02'', 1), (''2020-01-01'', 1)]" by code_simp
  have q: "qualifyingKeys startMs (itemsOf (feedThreePages (cursor initialState))) =
     [''2020-01-02'', ''2020-01-01'']" by code_simp
  have l: "jslt (timestamp ?it) startMs" by code_simp
  note t = page_items_counted[of startMs feedThreePages initialState "''2020-01-02''" ?it]
  from t have a: "countOf (counts (fst (iteration startMs feedThreePages initialState))) ''2020-01-02'' =
     countOf (counts initialState) ''2020-01-02'' +
     count_list (qualifyingKeys startMs (itemsOf (feedThreePages (cursor initialState)))) ''2020-01-02''"
    by blast
  from t l have n: "countItem startMs initialState (Some ?it) = initialState" by blast
  from l have l': "jslt (Fin 1577836799999) startMs" by simp
  from c q a l' n show ?thesis by blast
qed

section \<open>When the loop ends\<close>













end
